theory Spec2Isabelle
  imports Main "HOL-Library.AList" "HOL-Library.Sublist" "HOL-Library.Countable"
begin

section \<open>Errors\<close>

text \<open>
  The sources reject promises and throw with message strings; the specification names
  the failures. One constructor per failure:
  \<^item> \<open>KeyValidationError\<close>: \<open>throw 'Failed to decrypt key'\<close> in \<open>decryptKey\<close>;
  \<^item> \<open>NoSuchKeyError id\<close>: \<open>Q.reject('No such key: ' + id)\<close> in the key agent;
  \<^item> \<open>UnsupportedAlgorithmError\<close>: \<open>Q.reject('Unknown encryption algorithm')\<close>;
  \<^item> \<open>NoKeyForLevelError level\<close>: \<open>Q.reject('No key ' + level + ' found')\<close>;
  \<^item> \<open>NoKeysSavedError\<close>: \<open>'No encryption keys have been saved'\<close> in \<open>Store.unlock\<close>;
  \<^item> \<open>OverviewKeyError\<close>: \<open>'Unable to fetch overview key. Vault may be locked?'\<close>;
  \<^item> \<open>NotFoundError uuid\<close>: \<open>'No such item ' + uuid\<close>;
  \<^item> \<open>AssertionViolation\<close>: a failed \<open>assert(...)\<close>;
  \<^item> \<open>TypeError\<close>: a method call on \<open>undefined\<close> (\<open>item.updatedAt.getTime()\<close>);
  \<^item> \<open>SyntaxError\<close>: \<open>JSON.parse\<close> on text that is not the expected JSON;
  \<^item> \<open>StorageError key\<close>: the key-value storage engine rejects an operation on \<open>key\<close>;
  \<^item> \<open>ReadError\<close>: the file system rejects a read.
\<close>

datatype error =
    KeyValidationError
  | NoSuchKeyError string
  | UnsupportedAlgorithmError
  | NoKeyForLevelError string
  | NoKeysSavedError
  | OverviewKeyError
  | NotFoundError string
  | AssertionViolation
  | TypeError
  | SyntaxError
  | StorageError string
  | ReadError

section \<open>Crypto primitives\<close>

text \<open>
  The module \<open>onepass_crypto\<close> is not among the sources. Its functions are the fields of
  a provider record, so that every definition below takes the provider as a parameter
  and every theorem holds for any implementation of it:
  \<open>pbkdf2(password, salt, iterations, keyLen)\<close>, \<open>aesCbcDecrypt(key, data, iv)\<close>,
  \<open>aesCbcEncrypt(key, data, iv)\<close>, \<open>openSSLKey(secret, salt)\<close> returning \<open>(key, iv)\<close>,
  \<open>extractSaltAndCipherText(input)\<close> returning \<open>(salt, cipherText)\<close>, and the item-data
  envelope functions \<open>encryptAgileKeychainItemData(key, plainText)\<close>,
  \<open>decryptAgileKeychainItemData(key, cipherText)\<close>.
  Binary strings are \<open>string\<close>, one \<open>char\<close> per byte.
\<close>

record CryptoImpl =
  pbkdf2 :: "string \<Rightarrow> string \<Rightarrow> nat \<Rightarrow> nat \<Rightarrow> string"
  aesCbcDecrypt :: "string \<Rightarrow> string \<Rightarrow> string \<Rightarrow> string"
  aesCbcEncrypt :: "string \<Rightarrow> string \<Rightarrow> string \<Rightarrow> string"
  openSSLKey :: "string \<Rightarrow> string \<Rightarrow> string \<times> string"
  extractSaltAndCipherText :: "string \<Rightarrow> string \<times> string"
  encryptAgileKeychainItemData :: "string \<Rightarrow> string \<Rightarrow> string"
  decryptAgileKeychainItemData :: "string \<Rightarrow> string \<Rightarrow> string"

text \<open>JavaScript's \<open>s.substring(a, b)\<close> for \<open>a \<le> b\<close>: the characters at \<open>a, ..., b - 1\<close>
  that exist.\<close>

definition substring :: "string \<Rightarrow> nat \<Rightarrow> nat \<Rightarrow> string" where
  "substring s a b = take (b - a) (drop a s)"

section \<open>Key derivation: \<open>decryptKey\<close>\<close>

definition decryptKey ::
  "CryptoImpl \<Rightarrow> string \<Rightarrow> string \<Rightarrow> string \<Rightarrow> nat \<Rightarrow> string \<Rightarrow> error + string" where
  "decryptKey c masterPwd encryptedKey salt iterCount validation =
     (let KEY_LEN = 32;
          derivedKey = pbkdf2 c masterPwd salt iterCount KEY_LEN;
          aesKey = substring derivedKey 0 16;
          iv = substring derivedKey 16 32;
          decryptedKey = aesCbcDecrypt c aesKey encryptedKey iv;
          validationSaltCipher = extractSaltAndCipherText c validation;
          keyParams = openSSLKey c decryptedKey (fst validationSaltCipher);
          decryptedValidation =
            aesCbcDecrypt c (fst keyParams) (snd validationSaltCipher) (snd keyParams)
      in if decryptedValidation \<noteq> decryptedKey then Inl KeyValidationError
         else Inr decryptedKey)"

text \<open>
  The three intermediate values the specification names, written from its words
  (section 4.1) so that \<open>decryptKey\<close> can be compared with them: the AES key and IV split
  from the PBKDF2 output, the candidate raw key, and the validation blob decrypted under
  the key and IV that the legacy salted derivation gives for a candidate.
\<close>

definition derivedKeyIv :: "CryptoImpl \<Rightarrow> string \<Rightarrow> string \<Rightarrow> nat \<Rightarrow> string \<times> string" where
  "derivedKeyIv c password salt iterations =
     (take 16 (pbkdf2 c password salt iterations 32),
      take 16 (drop 16 (pbkdf2 c password salt iterations 32)))"

definition candidateKey :: "CryptoImpl \<Rightarrow> string \<Rightarrow> string \<Rightarrow> string \<Rightarrow> nat \<Rightarrow> string" where
  "candidateKey c password wrappedKey salt iterations =
     aesCbcDecrypt c (fst (derivedKeyIv c password salt iterations)) wrappedKey
       (snd (derivedKeyIv c password salt iterations))"

definition validationUnder :: "CryptoImpl \<Rightarrow> string \<Rightarrow> string \<Rightarrow> string" where
  "validationUnder c candidate validationBlob =
     aesCbcDecrypt c
       (fst (openSSLKey c candidate (fst (extractSaltAndCipherText c validationBlob))))
       (snd (extractSaltAndCipherText c validationBlob))
       (snd (openSSLKey c candidate (fst (extractSaltAndCipherText c validationBlob))))"

text \<open>
  How a key entry is made for a raw key \<open>k\<close> and a password: the wrapped key is \<open>k\<close>
  encrypted under the key and IV derived from the password, and the validation blob
  carries a salt and \<open>k\<close> encrypted under the key and IV derived from \<open>k\<close> and that salt.
\<close>

definition wrapsKey ::
  "CryptoImpl \<Rightarrow> string \<Rightarrow> string \<Rightarrow> string \<Rightarrow> nat \<Rightarrow> string \<Rightarrow> string \<Rightarrow> bool" where
  "wrapsKey c password wrappedKey salt iterations validationBlob k \<longleftrightarrow>
     wrappedKey = aesCbcEncrypt c (fst (derivedKeyIv c password salt iterations)) k
                    (snd (derivedKeyIv c password salt iterations)) \<and>
     snd (extractSaltAndCipherText c validationBlob) =
       aesCbcEncrypt c
         (fst (openSSLKey c k (fst (extractSaltAndCipherText c validationBlob)))) k
         (snd (openSSLKey c k (fst (extractSaltAndCipherText c validationBlob))))"

text \<open>The contract of the cipher: decryption under the same key and IV undoes encryption.\<close>

definition cbcRoundTrip :: "CryptoImpl \<Rightarrow> bool" where
  "cbcRoundTrip c \<longleftrightarrow>
     (\<forall>key iv m. aesCbcDecrypt c key (aesCbcEncrypt c key m iv) iv = m)"

section \<open>The key agent\<close>

datatype CryptoAlgorithm = AES128_OpenSSLKey | UnknownAlgorithm

record CryptoParams =
  algo :: CryptoAlgorithm

text \<open>
  \<open>SimpleKeyAgent\<close> keeps \<open>keys : {[id:string] : string}\<close>, a plain object, here the
  association list of its own properties in insertion order; an assignment to an
  existing key keeps its place, which is what \<open>AList.update\<close> does. An assignment of a
  string to the key \<open>__proto__\<close> reaches the setter of \<open>Object.prototype\<close>, which ignores
  a value that is neither an object nor null: the object gets no property.
\<close>

type_synonym SimpleKeyAgent = "(string \<times> string) list"

definition addKey :: "SimpleKeyAgent \<Rightarrow> string \<Rightarrow> string \<Rightarrow> SimpleKeyAgent" where
  "addKey keys ident key =
     (if ident = ''__proto__'' then keys else AList.update ident key keys)"

text \<open>
  \<open>Object.keys\<close> lists the keys that are array indices first, in ascending numeric
  order, and then the other keys in insertion order. An array index is the decimal
  numeral, without a leading zero, of a number below \<open>2\<^sup>3\<^sup>2 - 1\<close>.
\<close>

definition isDigit :: "char \<Rightarrow> bool" where
  "isDigit c \<longleftrightarrow> 48 \<le> (of_char c :: int) \<and> (of_char c :: int) \<le> 57"

definition decimalValue :: "string \<Rightarrow> int" where
  "decimalValue s = fold (\<lambda>c n. 10 * n + (of_char c - 48)) s 0"

definition isArrayIndex :: "string \<Rightarrow> bool" where
  "isArrayIndex s =
     (case s of
        [] \<Rightarrow> False
      | c # cs \<Rightarrow>
          list_all isDigit s \<and> (if c = CHR ''0'' then cs = [] else True) \<and>
          decimalValue s < 4294967295)"

definition listKeys :: "SimpleKeyAgent \<Rightarrow> string list" where
  "listKeys keys =
     (let ids = map fst keys
      in sort_key decimalValue (filter isArrayIndex ids) @
         filter (\<lambda>ident. \<not> isArrayIndex ident) ids)"

definition forgetKeys :: "SimpleKeyAgent \<Rightarrow> SimpleKeyAgent" where
  "forgetKeys keys = []"

definition agent_decrypt ::
  "CryptoImpl \<Rightarrow> SimpleKeyAgent \<Rightarrow> string \<Rightarrow> string \<Rightarrow> CryptoParams \<Rightarrow> error + string" where
  "agent_decrypt c keys ident cipherText params =
     (case map_of keys ident of
        None \<Rightarrow> Inl (NoSuchKeyError ident)
      | Some key \<Rightarrow>
          (case algo params of
             AES128_OpenSSLKey \<Rightarrow> Inr (decryptAgileKeychainItemData c key cipherText)
           | UnknownAlgorithm \<Rightarrow> Inl UnsupportedAlgorithmError))"

definition agent_encrypt ::
  "CryptoImpl \<Rightarrow> SimpleKeyAgent \<Rightarrow> string \<Rightarrow> string \<Rightarrow> CryptoParams \<Rightarrow> error + string" where
  "agent_encrypt c keys ident plainText params =
     (case map_of keys ident of
        None \<Rightarrow> Inl (NoSuchKeyError ident)
      | Some key \<Rightarrow>
          (case algo params of
             AES128_OpenSSLKey \<Rightarrow> Inr (encryptAgileKeychainItemData c key plainText)
           | UnknownAlgorithm \<Rightarrow> Inl UnsupportedAlgorithmError))"

section \<open>The vault\<close>

record EncryptionKeyEntry =
  data :: string
  "identifier" :: string
  iterations :: nat
  level :: string
  validation :: string

text \<open>
  \<open>Vault.readKeyData\<close>, on the parsed \<open>list\<close> of \<open>encryptionKeys.js\<close> with its
  \<open>data\<close> and \<open>validation\<close> fields already base64-decoded: entries of level \<open>SL3\<close>
  are skipped. The result is the field \<open>Vault.keys\<close>.
\<close>

definition readKeyData :: "EncryptionKeyEntry list \<Rightarrow> EncryptionKeyEntry list" where
  "readKeyData keyList = filter (\<lambda>item. level item \<noteq> ''SL3'') keyList"

text \<open>
  \<open>Vault.unlock\<close>: the body of \<open>keyEntries.forEach\<close> runs on each entry in turn and
  mutates the key agent; \<open>decryptKey\<close> throws out of the loop, which rejects the returned
  promise and leaves the agent as the earlier iterations made it. The result is the
  promise's outcome and the agent afterwards.
\<close>

fun unlock ::
  "CryptoImpl \<Rightarrow> string \<Rightarrow> EncryptionKeyEntry list \<Rightarrow> SimpleKeyAgent
     \<Rightarrow> (error + unit) \<times> SimpleKeyAgent" where
  "unlock c pwd [] agent = (Inr (), agent)"
| "unlock c pwd (item # keyEntries) agent =
     (let saltCipher = extractSaltAndCipherText c (data item)
      in case decryptKey c pwd (snd saltCipher) (fst saltCipher) (iterations item)
                (validation item) of
           Inl e \<Rightarrow> (Inl e, agent)
         | Inr key \<Rightarrow> unlock c pwd keyEntries (addKey agent (identifier item) key))"

definition lock :: "SimpleKeyAgent \<Rightarrow> SimpleKeyAgent" where
  "lock agent = forgetKeys agent"

text \<open>\<open>Vault.isLocked\<close>: some entry's identifier is not among the agent's key ids.\<close>

definition isLocked :: "EncryptionKeyEntry list \<Rightarrow> SimpleKeyAgent \<Rightarrow> bool" where
  "isLocked keyEntries agent =
     fold (\<lambda>entry locked. if identifier entry \<notin> set (listKeys agent) then True else locked)
       keyEntries False"

text \<open>
  \<open>Vault.decryptItemData\<close> and \<open>Vault.encryptItemData\<close>: \<open>keys.forEach\<close> assigns \<open>result\<close>
  at every entry whose level matches (the \<open>return\<close> leaves the callback, not the loop),
  so the last matching entry decides; \<open>result\<close> stays \<open>undefined\<close> when none matches.
\<close>

definition decryptItemData ::
  "CryptoImpl \<Rightarrow> EncryptionKeyEntry list \<Rightarrow> SimpleKeyAgent \<Rightarrow> string \<Rightarrow> string
     \<Rightarrow> error + string" where
  "decryptItemData c keys agent lvl dat =
     (let result =
        fold (\<lambda>key result.
                if level key = lvl
                then Some (agent_decrypt c agent (identifier key) dat
                             \<lparr>algo = AES128_OpenSSLKey\<rparr>)
                else result) keys None
      in case result of Some r \<Rightarrow> r | None \<Rightarrow> Inl (NoKeyForLevelError lvl))"

definition encryptItemData ::
  "CryptoImpl \<Rightarrow> EncryptionKeyEntry list \<Rightarrow> SimpleKeyAgent \<Rightarrow> string \<Rightarrow> string
     \<Rightarrow> error + string" where
  "encryptItemData c keys agent lvl dat =
     (let result =
        fold (\<lambda>key result.
                if level key = lvl
                then Some (agent_encrypt c agent (identifier key) dat
                             \<lparr>algo = AES128_OpenSSLKey\<rparr>)
                else result) keys None
      in case result of Some r \<Rightarrow> r | None \<Rightarrow> Inl (NoKeyForLevelError lvl))"

text \<open>
  The vault's items (class \<open>Item\<close> of the vault module), with the fields that
  \<open>Vault.listItems\<close> assigns. The fields carry the prefix \<open>v_\<close> to keep them apart from
  those of the local store's items below. \<open>contents.js\<close> is a JSON array of 8-element
  arrays \<open>[uuid, typeName, title, location, updatedAt, folderUuid, 0, trashed]\<close>.
\<close>

record VaultItem =
  v_uuid :: string
  v_typeName :: string
  v_title :: string
  v_location :: string
  v_updatedAt :: int
  v_folderUuid :: string
  v_trashed :: bool

type_synonym ContentsEntry =
  "string \<times> string \<times> string \<times> string \<times> int \<times> string \<times> int \<times> string"

definition dateFromUNIXDate :: "int \<Rightarrow> int" where
  "dateFromUNIXDate timestamp = timestamp * 1000"

definition itemFromEntry :: "ContentsEntry \<Rightarrow> VaultItem" where
  "itemFromEntry entry =
     (case entry of (e0, e1, e2, e3, e4, e5, e6, e7) \<Rightarrow>
        \<lparr>v_uuid = e0, v_typeName = e1, v_title = e2, v_location = e3,
         v_updatedAt = dateFromUNIXDate e4, v_folderUuid = e5,
         v_trashed = (e7 = ''Y'')\<rparr>)"

definition VaultItem_isTombstone :: "VaultItem \<Rightarrow> bool" where
  "VaultItem_isTombstone item \<longleftrightarrow> v_typeName item = ''system.Tombstone''"

text \<open>
  \<open>Vault.listItems\<close>, on the outcome of reading and parsing \<open>contents.js\<close>: a failed
  read rejects; otherwise every entry becomes an item and tombstones are skipped.
\<close>

definition Vault_listItems :: "error + ContentsEntry list \<Rightarrow> error + VaultItem list" where
  "Vault_listItems content =
     (case content of
        Inl err \<Rightarrow> Inl err
      | Inr entries \<Rightarrow>
          Inr (fold (\<lambda>entry vaultItems.
                       let item = itemFromEntry entry
                       in if VaultItem_isTombstone item then vaultItems
                          else vaultItems @ [item])
                 entries []))"

section \<open>The local store: data\<close>

record ItemOpenContents =
  tags :: "string list"
  scope :: string

text \<open>
  The items of the local store (class \<open>item_store.Item\<close>), with the fields that
  \<open>local_store.ts\<close> reads and writes. A \<open>Date\<close> is its \<open>getTime()\<close> value; a field that
  may be \<open>undefined\<close> is an \<open>option\<close>. The type \<open>'c\<close> is that of an item's content
  (\<open>item_store.ItemContent\<close>).
\<close>

record 'c Item =
  uuid :: string
  title :: string
  updatedAt :: "int option"
  createdAt :: "int option"
  trashed :: bool
  typeName :: string
  openContents :: "ItemOpenContents option"
  account :: string
  locations :: "string list"
  revision :: "string option"
  parentRevision :: "string option"
  content :: "'c option"

text \<open>Interface \<open>ItemOverview\<close>; its fields carry the prefix \<open>ov_\<close>.\<close>

record ItemOverview =
  ov_title :: string
  ov_updatedAt :: int
  ov_createdAt :: int
  ov_trashed :: bool
  ov_typeName :: string
  ov_openContents :: "ItemOpenContents option"
  ov_locations :: "string list"
  ov_account :: string
  ov_revision :: "string option"
  ov_parentRevision :: "string option"

text \<open>Interface \<open>ItemIndexEntry extends ItemOverview\<close>.\<close>

record ItemIndexEntry = ItemOverview +
  lastSyncedAt :: "int option"

text \<open>Interface \<open>ItemRevision\<close>; its fields carry the prefix \<open>rev_\<close>.\<close>

record 'c ItemRevision =
  rev_parentRevision :: "string option"
  rev_overview :: ItemOverview
  rev_content :: 'c

record LastSyncEntry =
  timestamp :: int
  lse_revision :: string

text \<open>Interface \<open>OverviewMap\<close>: a JavaScript object from uuid to index entry, in
  insertion order.\<close>

type_synonym OverviewMap = "(string \<times> ItemIndexEntry) list"

datatype ChangeSource = Sync | Local

record ListItemsOptions =
  includeTombstones :: "bool option"

text \<open>
  \<open>key_agent.Key\<close> is not among the sources; the store only stores such keys and reads
  their \<open>identifier\<close>. The vault module's \<open>EncryptionKeyEntry\<close>, which has the same role
  (``encrypted encryption key, plus metadata for PBKDF2''), stands for it.
\<close>

type_synonym Key = EncryptionKeyEntry

text \<open>What the two object stores hold, by the schema comment of \<open>local_store.ts\<close>.\<close>

datatype KeyStoreValue = Hint string | StoredKey Key

datatype ItemStoreValue = Encrypted string | LastSynced LastSyncEntry

section \<open>The local store: collaborators\<close>

text \<open>
  Modelled from the spec: the persisted key-value storage (\<open>key_value_store.ObjectStore\<close>)
  is not among the sources. Section 6 gives its contract: \<open>get(key)\<close> returns the value or
  null, \<open>set(key, value)\<close>, \<open>remove(key)\<close>, \<open>list(prefix)\<close> returns the keys with that
  prefix; each call is a future, which may fail. An object store is its entries and the
  keys at which the engine rejects a write (\<open>failing\<close>); a rejected write changes nothing.
\<close>

record 'v ObjectStore =
  entries :: "(string \<times> 'v) list"
  failing :: "string \<Rightarrow> bool"

definition os_get :: "'v ObjectStore \<Rightarrow> string \<Rightarrow> 'v option" where
  "os_get s k = map_of (entries s) k"

definition os_set :: "'v ObjectStore \<Rightarrow> string \<Rightarrow> 'v \<Rightarrow> (error + unit) \<times> 'v ObjectStore" where
  "os_set s k v =
     (if failing s k then (Inl (StorageError k), s)
      else (Inr (), s\<lparr>entries := AList.update k v (entries s)\<rparr>))"

definition os_remove :: "'v ObjectStore \<Rightarrow> string \<Rightarrow> (error + unit) \<times> 'v ObjectStore" where
  "os_remove s k =
     (if failing s k then (Inl (StorageError k), s)
      else (Inr (), s\<lparr>entries := AList.delete k (entries s)\<rparr>))"

definition os_list :: "'v ObjectStore \<Rightarrow> string \<Rightarrow> string list" where
  "os_list s p = filter (prefix p) (map fst (entries s))"

text \<open>
  \<open>Q.all\<close> over operations that were all started, in order: every operation runs, and
  the combined promise is rejected with the first failure.
\<close>

fun runAll :: "('s \<Rightarrow> (error + unit) \<times> 's) list \<Rightarrow> 's \<Rightarrow> (error + unit) \<times> 's" where
  "runAll [] s = (Inr (), s)"
| "runAll (operation # operations) s =
     (let (r, s1) = operation s;
          (rs, s2) = runAll operations s1
      in (case r of Inl e \<Rightarrow> Inl e | Inr u \<Rightarrow> rs, s2))"

text \<open>
  What the store takes from outside \<open>local_store.ts\<close>: the crypto provider of its key
  agent, \<open>JSON.stringify\<close> and \<open>JSON.parse\<close> at the two types they are used at (\<open>None\<close>
  when \<open>JSON.parse\<close> throws), \<open>item_store.generateRevisionId\<close>, the two overview
  fields that an item derives from its content, and \<open>key_agent.decryptKeys\<close>, which
  derives the keys of all the stored key entries from a password (a list of pairs of a
  key's id and the key) or throws.
\<close>

record 'c Env =
  cryptoImpl :: CryptoImpl
  stringifyIndex :: "OverviewMap \<Rightarrow> string"
  parseIndex :: "string \<Rightarrow> OverviewMap option"
  stringifyRevision :: "'c ItemRevision \<Rightarrow> string"
  parseRevision :: "string \<Rightarrow> 'c ItemRevision option"
  generateRevisionId :: "'c Item \<Rightarrow> 'c \<Rightarrow> string"
  contentLocations :: "'c \<Rightarrow> string list"
  contentAccount :: "'c \<Rightarrow> string"
  decryptKeys :: "KeyStoreValue option list \<Rightarrow> string \<Rightarrow> error + (string \<times> string) list"

section \<open>The local store: state and operations\<close>

text \<open>
  The fields of class \<open>Store\<close>: the two object stores, the key agent (a
  \<open>SimpleKeyAgent\<close>), the cached value of \<open>itemIndex\<close> (\<open>None\<close> when nothing is cached),
  and what has been published on the two event streams.
\<close>

record 'c Store =
  keyStore :: "KeyStoreValue ObjectStore"
  itemStore :: "ItemStoreValue ObjectStore"
  keyAgent :: SimpleKeyAgent
  itemIndex :: "OverviewMap option"
  onItemUpdated :: "'c Item list"
  onUnlock :: nat

definition KEY_ID_PREFIX :: string where
  "KEY_ID_PREFIX = ''key/''"

definition isTombstone :: "'c Item \<Rightarrow> bool" where
  "isTombstone item \<longleftrightarrow> typeName item = ''system.Tombstone''"

definition overviewKey :: "'c Store \<Rightarrow> error + string" where
  "overviewKey st =
     (case listKeys (keyAgent st) of
        [] \<Rightarrow> Inl OverviewKeyError
      | keyId # keyIds \<Rightarrow> Inr keyId)"

definition keyForItem :: "'c Store \<Rightarrow> 'c Item \<Rightarrow> error + string" where
  "keyForItem st item = overviewKey st"

text \<open>\<open>Store.encrypt\<close> and \<open>Store.decrypt\<close>, on the JSON text.\<close>

definition Store_encrypt :: "'c Env \<Rightarrow> 'c Store \<Rightarrow> string \<Rightarrow> string \<Rightarrow> error + string" where
  "Store_encrypt E st key text =
     agent_encrypt (cryptoImpl E) (keyAgent st) key text \<lparr>algo = AES128_OpenSSLKey\<rparr>"

definition Store_decrypt :: "'c Env \<Rightarrow> 'c Store \<Rightarrow> string \<Rightarrow> string \<Rightarrow> error + string" where
  "Store_decrypt E st key dat =
     agent_decrypt (cryptoImpl E) (keyAgent st) key dat \<lparr>algo = AES128_OpenSSLKey\<rparr>"

definition parsed :: "'a option \<Rightarrow> error + 'a" where
  "parsed r = (case r of None \<Rightarrow> Inl SyntaxError | Some v \<Rightarrow> Inr v)"

definition itemFromOverview :: "string \<Rightarrow> 'm ItemOverview_scheme \<Rightarrow> 'c Item" where
  "itemFromOverview ident overview =
     \<lparr>uuid = ident, title = ov_title overview,
      updatedAt = Some (ov_updatedAt overview), createdAt = Some (ov_createdAt overview),
      trashed = ov_trashed overview, typeName = ov_typeName overview,
      openContents = ov_openContents overview,
      account = ov_account overview, locations = ov_locations overview,
      revision = ov_revision overview, parentRevision = ov_parentRevision overview,
      content = None\<rparr>"

definition overviewFromItem :: "'c Item \<Rightarrow> error + ItemOverview" where
  "overviewFromItem item =
     (case updatedAt item of
        None \<Rightarrow> Inl TypeError
      | Some u \<Rightarrow>
          (case createdAt item of
             None \<Rightarrow> Inl TypeError
           | Some c \<Rightarrow>
               Inr \<lparr>ov_title = title item, ov_updatedAt = u, ov_createdAt = c,
                    ov_trashed = trashed item, ov_typeName = typeName item,
                    ov_openContents = openContents item,
                    ov_locations = locations item, ov_account = account item,
                    ov_revision = revision item,
                    ov_parentRevision = parentRevision item\<rparr>))"

text \<open>\<open>Store.readItemIndex\<close> and \<open>Store.writeItemIndex\<close>. A value under \<open>index\<close> that is
  not a string is not text the key agent can decrypt.\<close>

definition readItemIndex :: "'c Env \<Rightarrow> 'c Store \<Rightarrow> error + OverviewMap" where
  "readItemIndex E st =
     (case overviewKey st of
        Inl e \<Rightarrow> Inl e
      | Inr key \<Rightarrow>
          (case os_get (itemStore st) ''index'' of
             None \<Rightarrow> Inr []
           | Some (LastSynced entry) \<Rightarrow> Inl TypeError
           | Some (Encrypted encryptedItemIndex) \<Rightarrow>
               if encryptedItemIndex \<noteq> []
               then (case Store_decrypt E st key encryptedItemIndex of
                       Inl e \<Rightarrow> Inl e
                     | Inr decrypted \<Rightarrow> parsed (parseIndex E decrypted))
               else Inr []))"

definition writeItemIndex ::
  "'c Env \<Rightarrow> 'c Store \<Rightarrow> OverviewMap \<Rightarrow> (error + unit) \<times> 'c Store" where
  "writeItemIndex E st index =
     (case overviewKey st of
        Inl e \<Rightarrow> (Inl e, st)
      | Inr key \<Rightarrow>
          (case Store_encrypt E st key (stringifyIndex E index) of
             Inl e \<Rightarrow> (Inl e, st)
           | Inr encrypted \<Rightarrow>
               (let (r, items) = os_set (itemStore st) ''index'' (Encrypted encrypted)
                in (r, st\<lparr>itemStore := items\<rparr>))))"

text \<open>
  Modelled from the spec: \<open>cached.Cached\<close> is not among the sources. Section 4.4:
  \<open>get()\<close> returns the cached value if present and otherwise invokes the loader (and
  keeps its result); \<open>set(value)\<close> persists via the writer, then updates the cache only
  on writer success; \<open>clear()\<close> drops the cached value in memory, with no effect on the
  persisted storage. The store's \<open>itemIndex\<close> has loader \<open>readItemIndex\<close> and writer
  \<open>writeItemIndex\<close>.
\<close>

definition itemIndex_get :: "'c Env \<Rightarrow> 'c Store \<Rightarrow> (error + OverviewMap) \<times> 'c Store" where
  "itemIndex_get E st =
     (case itemIndex st of
        Some v \<Rightarrow> (Inr v, st)
      | None \<Rightarrow>
          (case readItemIndex E st of
             Inl e \<Rightarrow> (Inl e, st)
           | Inr v \<Rightarrow> (Inr v, st\<lparr>itemIndex := Some v\<rparr>)))"

definition itemIndex_set ::
  "'c Env \<Rightarrow> 'c Store \<Rightarrow> OverviewMap \<Rightarrow> (error + unit) \<times> 'c Store" where
  "itemIndex_set E st v =
     (case writeItemIndex E st v of
        (Inl e, st1) \<Rightarrow> (Inl e, st1)
      | (Inr u, st1) \<Rightarrow> (Inr (), st1\<lparr>itemIndex := Some v\<rparr>))"

definition itemIndex_clear :: "'c Store \<Rightarrow> 'c Store" where
  "itemIndex_clear st = st\<lparr>itemIndex := None\<rparr>"

text \<open>
  The listener that the constructor of \<open>Store\<close> registers on \<open>keyAgent.onLock()\<close>.
\<close>

definition onLockListener :: "'c Store \<Rightarrow> 'c Store" where
  "onLockListener st = itemIndex_clear st"

text \<open>
  Modelled from the spec: the key agent of the store (\<open>key_agent.KeyAgent\<close>, with its
  \<open>onLock()\<close> event stream) is not among the sources. Section 4.2: \<open>forgetKeys()\<close> clears
  all state, transitions to Locked and emits an event; the store's listener runs on it.
\<close>

definition Store_lock :: "'c Store \<Rightarrow> 'c Store" where
  "Store_lock st = onLockListener (st\<lparr>keyAgent := forgetKeys (keyAgent st)\<rparr>)"

text \<open>\<open>Store.listItems\<close>; \<open>opts.includeTombstones\<close> is truthy when it is \<open>true\<close>.\<close>

definition Store_listItems ::
  "'c Env \<Rightarrow> 'c Store \<Rightarrow> ListItemsOptions \<Rightarrow> (error + 'c Item list) \<times> 'c Store" where
  "Store_listItems E st opts =
     (case itemIndex_get E st of
        (Inl e, st1) \<Rightarrow> (Inl e, st1)
      | (Inr overviewMap, st1) \<Rightarrow>
          (Inr (fold (\<lambda>(key, overview) items.
                        let item = itemFromOverview key overview
                        in if \<not> isTombstone item \<or> includeTombstones opts = Some True
                           then items @ [item] else items)
                  overviewMap []),
           st1))"

text \<open>
  \<open>Store.getLastSyncEntries\<close>, and the \<open>lastSyncTimes\<close> of \<open>Store.updateIndex\<close>:
  \<open>entry ? entry.timestamp : 0\<close>. A stored string has no \<open>timestamp\<close> property.
\<close>

definition getLastSyncEntries :: "'c Store \<Rightarrow> string list \<Rightarrow> ItemStoreValue option list" where
  "getLastSyncEntries st ids = map (\<lambda>ident. os_get (itemStore st) (''lastSynced/'' @ ident)) ids"

definition lastSyncTime :: "ItemStoreValue option \<Rightarrow> int option" where
  "lastSyncTime entry =
     (case entry of
        None \<Rightarrow> Some 0
      | Some (LastSynced e) \<Rightarrow> Some (timestamp e)
      | Some (Encrypted text) \<Rightarrow> if text = [] then Some 0 else None)"

definition indexEntry :: "ItemOverview \<Rightarrow> int option \<Rightarrow> ItemIndexEntry" where
  "indexEntry overview t = ItemOverview.extend overview (ItemIndexEntry.fields t)"

text \<open>
  The loop \<open>updatedItems.forEach\<close> of \<open>Store.updateIndex\<close>, on the items paired with their
  last-sync times. The assertion \<open>entry.lastSyncedAt !== null\<close> cannot fail here: the
  value is a number or \<open>undefined\<close>. The loop writes into the map itself, so it returns
  the map as it has become, also when \<open>overviewFromItem\<close> throws at some item.
\<close>

fun applyUpdates ::
  "OverviewMap \<Rightarrow> ('c Item \<times> int option) list \<Rightarrow> (error + unit) \<times> OverviewMap" where
  "applyUpdates overviewMap [] = (Inr (), overviewMap)"
| "applyUpdates overviewMap ((item, t) # updates) =
     (case overviewFromItem item of
        Inl e \<Rightarrow> (Inl e, overviewMap)
      | Inr overview \<Rightarrow>
          applyUpdates (AList.update (uuid item) (indexEntry overview t) overviewMap) updates)"

text \<open>
  \<open>Store.updateIndex\<close>. The map that \<open>itemIndex.get()\<close> returns is the object that the
  cache holds, and the loop writes the entries into it: the cache holds the updated map
  from then on, before \<open>itemIndex.set\<close> writes it and also if that write fails.
\<close>

definition updateIndex ::
  "'c Env \<Rightarrow> 'c Store \<Rightarrow> 'c Item list \<Rightarrow> (error + unit) \<times> 'c Store" where
  "updateIndex E st updatedItems =
     (let updatedItemIds = map uuid updatedItems
      in case itemIndex_get E st of
           (Inl e, st1) \<Rightarrow> (Inl e, st1)
         | (Inr overviewMap, st1) \<Rightarrow>
             (let lastSyncTimes = map lastSyncTime (getLastSyncEntries st1 updatedItemIds);
                  (applied, updated) = applyUpdates overviewMap (zip updatedItems lastSyncTimes);
                  st2 = st1\<lparr>itemIndex := Some updated\<rparr>
              in case applied of
                   Inl e \<Rightarrow> (Inl e, st2)
                 | Inr u \<Rightarrow> itemIndex_set E st2 updated))"

text \<open>
  Modelled from the spec: \<open>collectionutil.BatchedUpdateQueue\<close> is not among the sources.
  Section 4.5: \<open>push(item)\<close> appends to the pending batch and returns a future that
  resolves once that batch is merged by the flush function, here \<open>updateIndex\<close>. For a
  push with no other push pending, the batch is the pushed item alone.
\<close>

definition indexUpdateQueue_push ::
  "'c Env \<Rightarrow> 'c Store \<Rightarrow> 'c Item \<Rightarrow> (error + unit) \<times> 'c Store" where
  "indexUpdateQueue_push E st item = updateIndex E st [item]"

text \<open>\<open>'revisions/' + item.revision\<close>; JavaScript writes \<open>undefined\<close> as that word.\<close>

definition revisionKey :: "string option \<Rightarrow> string" where
  "revisionKey r = ''revisions/'' @ (case r of None \<Rightarrow> ''undefined'' | Some ident \<Rightarrow> ident)"

text \<open>\<open>Store.getContent\<close>. A missing revision gives the key agent \<open>undefined\<close> to
  decrypt.\<close>

definition Store_getContent :: "'c Env \<Rightarrow> 'c Store \<Rightarrow> 'c Item \<Rightarrow> error + 'c" where
  "Store_getContent E st item =
     (case keyForItem st item of
        Inl e \<Rightarrow> Inl e
      | Inr key \<Rightarrow>
          (case os_get (itemStore st) (revisionKey (revision item)) of
             Some (Encrypted revisionData) \<Rightarrow>
               (case Store_decrypt E st key revisionData of
                  Inl e \<Rightarrow> Inl e
                | Inr decrypted \<Rightarrow>
                    (case parsed (parseRevision E decrypted) of
                       Inl e \<Rightarrow> Inl e
                     | Inr r \<Rightarrow> Inr (rev_content r)))
           | Some (LastSynced entry) \<Rightarrow> Inl TypeError
           | None \<Rightarrow> Inl TypeError))"

text \<open>
  Modelled from the spec: the methods \<open>getContent\<close>, \<open>updateTimestamps\<close> and
  \<open>updateOverviewFromContent\<close> of \<open>item_store.Item\<close> are not among the sources.
  \<^item> \<open>getContent\<close>: as in the vault module's \<open>Item.getContent\<close>, the content that was set
    on the item if there is one, and otherwise the content that the store holds
    (``fetch current content'', section 4.6).
  \<^item> \<open>updateTimestamps\<close>: ``stamp \<open>updatedAt\<close> (and \<open>createdAt\<close> if absent) to now''
    (section 4.6), as \<open>Vault.saveItem\<close> does in the vault module.
  \<^item> \<open>updateOverviewFromContent\<close>: the overview fields that come from the content are
    \<open>locations\<close> and \<open>account\<close>; it sets them from the content and leaves the others.
\<close>

definition Item_getContent :: "'c Env \<Rightarrow> 'c Store \<Rightarrow> 'c Item \<Rightarrow> error + 'c" where
  "Item_getContent E st item =
     (case content item of
        Some c \<Rightarrow> Inr c
      | None \<Rightarrow> Store_getContent E st item)"

definition updateTimestamps :: "int \<Rightarrow> 'c Item \<Rightarrow> 'c Item" where
  "updateTimestamps now item =
     item\<lparr>createdAt := (case createdAt item of None \<Rightarrow> Some now | Some t \<Rightarrow> Some t),
          updatedAt := Some now\<rparr>"

definition updateOverviewFromContent :: "'c Env \<Rightarrow> 'c Item \<Rightarrow> 'c \<Rightarrow> 'c Item" where
  "updateOverviewFromContent E item c =
     item\<lparr>locations := contentLocations E c, account := contentAccount E c\<rparr>"

text \<open>
  \<open>Store.saveItem\<close>, in three parts. \<open>stampItem\<close> is the \<open>if\<close> at its head; \<open>now\<close> is the
  clock's reading. \<open>commitRevision\<close> is the last two \<open>then\<close> callbacks: the index update
  and the write of the revision are both started, \<open>Q.all\<close> waits for both, and the item
  is published if both succeed. The write is started at once and the index update at the
  queue's next flush, so when both fail the failure of the write settles first and is
  the one that \<open>Q.all\<close> reports. \<open>saveItem\<close> returns the promise's outcome, the store
  and the item as the call leaves them.
\<close>

definition stampItem :: "int \<Rightarrow> 'c Item \<Rightarrow> ChangeSource \<Rightarrow> error + 'c Item" where
  "stampItem now item source =
     (if source \<noteq> Sync then Inr (updateTimestamps now item)
      else if createdAt item = None then Inl AssertionViolation
      else if updatedAt item = None then Inl AssertionViolation
      else Inr item)"

definition commitRevision ::
  "'c Env \<Rightarrow> 'c Store \<Rightarrow> 'c Item \<Rightarrow> string \<Rightarrow> (error + unit) \<times> 'c Store \<times> 'c Item" where
  "commitRevision E st item revisionData =
     (let (indexUpdated, st1) = indexUpdateQueue_push E st item;
          (revisionSaved, items) =
             os_set (itemStore st1) (revisionKey (revision item)) (Encrypted revisionData);
          st2 = st1\<lparr>itemStore := items\<rparr>
      in case revisionSaved of
           Inl e \<Rightarrow> (Inl e, st2, item)
         | Inr u \<Rightarrow>
             (case indexUpdated of
                Inl e \<Rightarrow> (Inl e, st2, item)
              | Inr u \<Rightarrow> (Inr (), st2\<lparr>onItemUpdated := onItemUpdated st2 @ [item]\<rparr>, item)))"

definition saveItem ::
  "'c Env \<Rightarrow> int \<Rightarrow> 'c Store \<Rightarrow> 'c Item \<Rightarrow> ChangeSource
     \<Rightarrow> (error + unit) \<times> 'c Store \<times> 'c Item" where
  "saveItem E now st item0 source =
     (case stampItem now item0 source of
        Inl e \<Rightarrow> (Inl e, st, item0)
      | Inr item1 \<Rightarrow>
          (case keyForItem st item1 of
             Inl e \<Rightarrow> (Inl e, st, item1)
           | Inr key \<Rightarrow>
               (case Item_getContent E st item1 of
                  Inl e \<Rightarrow> (Inl e, st, item1)
                | Inr c \<Rightarrow>
                    (let item2 = updateOverviewFromContent E item1 c;
                         item3 = item2\<lparr>parentRevision := revision item2\<rparr>;
                         item = item3\<lparr>revision := Some (generateRevisionId E item3 c)\<rparr>
                     in case overviewFromItem item of
                          Inl e \<Rightarrow> (Inl e, st, item)
                        | Inr overview \<Rightarrow>
                            (let r = \<lparr>rev_parentRevision = parentRevision item,
                                      rev_overview = overview, rev_content = c\<rparr>
                             in case Store_encrypt E st key (stringifyRevision E r) of
                                  Inl e \<Rightarrow> (Inl e, st, item)
                                | Inr revisionData \<Rightarrow>
                                    commitRevision E st item revisionData)))))"

text \<open>\<open>Store.listKeys\<close>, \<open>Store.saveKeys\<close> and \<open>Store.passwordHint\<close>.\<close>

definition Store_listKeys :: "'c Store \<Rightarrow> KeyStoreValue option list" where
  "Store_listKeys st =
     map (\<lambda>ident. os_get (keyStore st) ident) (os_list (keyStore st) KEY_ID_PREFIX)"

definition saveKeys :: "'c Store \<Rightarrow> Key list \<Rightarrow> string \<Rightarrow> (error + unit) \<times> 'c Store" where
  "saveKeys st keys hint =
     (let keyIds = os_list (keyStore st) KEY_ID_PREFIX;
          removeOps = map (\<lambda>ident s. os_remove s ident) keyIds;
          (removed, ks1) = runAll removeOps (keyStore st)
      in case removed of
           Inl e \<Rightarrow> (Inl e, st\<lparr>keyStore := ks1\<rparr>)
         | Inr u \<Rightarrow>
             (let keysSaved =
                    map (\<lambda>key s. os_set s (KEY_ID_PREFIX @ identifier key) (StoredKey key)) keys
                    @ [\<lambda>s. os_set s ''hint'' (Hint hint)];
                  (saved, ks2) = runAll keysSaved ks1
              in (saved, st\<lparr>keyStore := ks2\<rparr>)))"

definition passwordHint :: "'c Store \<Rightarrow> KeyStoreValue option" where
  "passwordHint st = os_get (keyStore st) ''hint''"

text \<open>
  \<open>Store.unlock\<close>: all keys are derived first; only then is each one added to the key
  agent, and the unlock is published.
\<close>

definition Store_unlock :: "'c Env \<Rightarrow> 'c Store \<Rightarrow> string \<Rightarrow> (error + unit) \<times> 'c Store" where
  "Store_unlock E st pwd =
     (let keys = Store_listKeys st
      in if length keys = 0 then (Inl NoKeysSavedError, st)
         else (case decryptKeys E keys pwd of
                 Inl e \<Rightarrow> (Inl e, st)
               | Inr derived \<Rightarrow>
                   (Inr (),
                    st\<lparr>keyAgent := fold (\<lambda>key agent. addKey agent (fst key) (snd key)) derived
                                      (keyAgent st),
                       onUnlock := Suc (onUnlock st)\<rparr>)))"

section \<open>Reference notions and test data\<close>

text \<open>
  A validation blob validates only \<open>k\<close> when no other candidate is reproduced by
  decrypting the blob under the key and IV derived from that candidate.
\<close>

definition validatesOnly :: "CryptoImpl \<Rightarrow> string \<Rightarrow> string \<Rightarrow> bool" where
  "validatesOnly c validationBlob k \<longleftrightarrow>
     (\<forall>x. validationUnder c x validationBlob = x \<longrightarrow> x = k)"

text \<open>
  What a listing of an overview map should be: every entry as an item, in the map's
  order, without the tombstones unless they are asked for.
\<close>

definition listed :: "ListItemsOptions \<Rightarrow> OverviewMap \<Rightarrow> 'c Item list" where
  "listed opts overviewMap =
     filter (\<lambda>item. \<not> isTombstone item \<or> includeTombstones opts = Some True)
       (map (\<lambda>(key, overview). itemFromOverview key overview) overviewMap)"

text \<open>
  A small crypto provider to run the definitions on: the ``cipher'' prepends the key
  and the IV, and decryption under another key or IV gives other text.
\<close>

definition toyCrypto :: CryptoImpl where
  "toyCrypto =
     \<lparr>pbkdf2 = (\<lambda>password salt iterations keyLen.
                  take keyLen (password @ salt @ ''00000000000000000000000000000000'')),
      aesCbcDecrypt = (\<lambda>key dat iv.
                  if take (length key + length iv) dat = key @ iv
                  then drop (length key + length iv) dat
                  else CHR ''?'' # key @ dat),
      aesCbcEncrypt = (\<lambda>key dat iv. key @ iv @ dat),
      openSSLKey = (\<lambda>secret salt. (secret, salt)),
      extractSaltAndCipherText = (\<lambda>input. (take 1 input, drop 1 input)),
      encryptAgileKeychainItemData = (\<lambda>key plainText. key @ plainText),
      decryptAgileKeychainItemData = (\<lambda>key cipherText. drop (length key) cipherText)\<rparr>"

text \<open>
  Three key entries: \<open>goodEntry\<close> wraps the key \<open>key\<close> under the password \<open>pw\<close>;
  \<open>badEntry\<close> is corrupt; \<open>legacyEntry\<close> has the level \<open>SL3\<close>.
\<close>

definition goodEntry :: EncryptionKeyEntry where
  "goodEntry =
     \<lparr>data = ''n'' @ ''pwn0000000000000'' @ ''0000000000000000'' @ ''key'',
      identifier = ''A1'', iterations = 1000, level = ''SL5'',
      validation = ''skeyskey''\<rparr>"

definition badEntry :: EncryptionKeyEntry where
  "badEntry =
     \<lparr>data = ''nXX'', identifier = ''B2'', iterations = 1000, level = ''SL4'',
      validation = ''sYY''\<rparr>"

definition legacyEntry :: EncryptionKeyEntry where
  "legacyEntry =
     \<lparr>data = ''nZZ'', identifier = ''C3'', iterations = 1000, level = ''SL3'',
      validation = ''sZZ''\<rparr>"

text \<open>
  The item as \<open>saveItem\<close> has it when the revision is encrypted: the overview fields
  refreshed from the content, \<open>parentRevision\<close> set to the revision so far, and then
  \<open>revision\<close> set to the id generated from that item and the content.
\<close>

definition linkedItem :: "'c Env \<Rightarrow> 'c Item \<Rightarrow> 'c \<Rightarrow> 'c Item" where
  "linkedItem E item1 c =
     (let item2 = updateOverviewFromContent E item1 c;
          item3 = item2\<lparr>parentRevision := revision item2\<rparr>
      in item3\<lparr>revision := Some (generateRevisionId E item3 c)\<rparr>)"

text \<open>
  Sequential saves of one item by a caller: before each save the caller sets the
  content (\<open>Item.setContent\<close>), and carries on with the item as the save left it. The
  result is the store and the item after each successful save, up to the first failure.
\<close>

definition setContent :: "'c Item \<Rightarrow> 'c \<Rightarrow> 'c Item" where
  "setContent item c = item\<lparr>content := Some c\<rparr>"

fun saveSeq ::
  "'c Env \<Rightarrow> 'c Store \<Rightarrow> 'c Item \<Rightarrow> (int \<times> ChangeSource \<times> 'c) list
     \<Rightarrow> 'c Store \<times> 'c Item list" where
  "saveSeq E st item [] = (st, [])"
| "saveSeq E st item ((now, source, c) # steps) =
     (case saveItem E now st (setContent item c) source of
        (Inl e, st1, item1) \<Rightarrow> (st1, [])
      | (Inr u, st1, item1) \<Rightarrow>
          (let (st2, saved) = saveSeq E st1 item1 steps in (st2, item1 # saved)))"

text \<open>
  A history of saved items is chained from \<open>prev\<close> when the first one's
  \<open>parentRevision\<close> is \<open>prev\<close> and each later one's is the \<open>revision\<close> of the one before.
\<close>

fun chained :: "string option \<Rightarrow> 'c Item list \<Rightarrow> bool" where
  "chained prev [] = True"
| "chained prev (item # saved) = (parentRevision item = prev \<and> chained (revision item) saved)"

text \<open>
  Two stores agree but for the index when they differ at most in the cached index and in
  what the item store holds under \<open>index\<close>.
\<close>

definition sameButIndex :: "'c Store \<Rightarrow> 'c Store \<Rightarrow> bool" where
  "sameButIndex st st1 \<longleftrightarrow>
     keyStore st1 = keyStore st \<and> keyAgent st1 = keyAgent st \<and>
     onItemUpdated st1 = onItemUpdated st \<and> onUnlock st1 = onUnlock st \<and>
     failing (itemStore st1) = failing (itemStore st) \<and>
     (\<forall>k. k \<noteq> ''index'' \<longrightarrow> os_get (itemStore st1) k = os_get (itemStore st) k)"

text \<open>
  The entries that \<open>saveKeys\<close> writes for a list of keys, and the effect of writing a
  list of entries in order into an association list.
\<close>

definition savedKeyEntries :: "Key list \<Rightarrow> (string \<times> KeyStoreValue) list" where
  "savedKeyEntries keys = map (\<lambda>key. (KEY_ID_PREFIX @ identifier key, StoredKey key)) keys"

definition putAll :: "(string \<times> 'v) list \<Rightarrow> (string \<times> 'v) list \<Rightarrow> (string \<times> 'v) list" where
  "putAll kvs al = fold (\<lambda>kv. AList.update (fst kv) (snd kv)) kvs al"

text \<open>
  An environment over contents that are strings, a store that is unlocked with one key
  and holds nothing, and an item. Further stores: one with a cached index of an item and
  a tombstone and a different persisted index; one whose storage engine rejects every
  write but that of the index; one whose key store holds an old key, a hint and an entry
  of another kind.
\<close>

definition toyEntry :: "string \<Rightarrow> string \<Rightarrow> ItemIndexEntry" where
  "toyEntry t tn =
     \<lparr>ov_title = t, ov_updatedAt = 1, ov_createdAt = 1, ov_trashed = False,
      ov_typeName = tn, ov_openContents = None, ov_locations = [], ov_account = [],
      ov_revision = None, ov_parentRevision = None, lastSyncedAt = Some 0\<rparr>"

definition toyEnv :: "string Env" where
  "toyEnv =
     \<lparr>cryptoImpl = toyCrypto,
      stringifyIndex = (\<lambda>index. ''index:'' @ concat (map fst index)),
      parseIndex = (\<lambda>text. Some [(text, toyEntry text ''webforms.WebForm'')]),
      stringifyRevision = (\<lambda>r. ''rev:'' @ ov_title (rev_overview r) @ '':'' @ rev_content r),
      parseRevision = (\<lambda>text. None),
      generateRevisionId = (\<lambda>item c. ''r-'' @ title item @ ''-'' @ c @ ''-'' @
                               (case parentRevision item of None \<Rightarrow> '''' | Some p \<Rightarrow> p)),
      contentLocations = (\<lambda>c. [c]),
      contentAccount = (\<lambda>c. c),
      decryptKeys = (\<lambda>keys pwd. if pwd = ''pw'' then Inr [(''A1'', ''key'')]
                                else Inl KeyValidationError)\<rparr>"

definition emptyObjectStore :: "'v ObjectStore" where
  "emptyObjectStore = \<lparr>entries = [], failing = (\<lambda>k. False)\<rparr>"

definition unlockedStore :: "string Store" where
  "unlockedStore =
     \<lparr>keyStore = emptyObjectStore, itemStore = emptyObjectStore,
      keyAgent = [(''A1'', ''key'')], itemIndex = None, onItemUpdated = [], onUnlock = 0\<rparr>"

definition cachedStore :: "string Store" where
  "cachedStore =
     \<lparr>keyStore = emptyObjectStore,
      itemStore = \<lparr>entries = [(''index'', Encrypted ''keyu9'')], failing = (\<lambda>k. False)\<rparr>,
      keyAgent = [(''A1'', ''key'')],
      itemIndex = Some [(''u1'', toyEntry ''Bank'' ''webforms.WebForm''),
                        (''u2'', toyEntry ''Gone'' ''system.Tombstone'')],
      onItemUpdated = [], onUnlock = 0\<rparr>"

definition brokenStore :: "string Store" where
  "brokenStore =
     \<lparr>keyStore = emptyObjectStore,
      itemStore = \<lparr>entries = [], failing = (\<lambda>k. k \<noteq> ''index'')\<rparr>,
      keyAgent = [(''A1'', ''key'')], itemIndex = None, onItemUpdated = [], onUnlock = 0\<rparr>"

definition oldKeysStore :: "string Store" where
  "oldKeysStore =
     \<lparr>keyStore = \<lparr>entries = [(''key/OLD'', StoredKey badEntry), (''hint'', Hint ''old''),
                              (''other'', Hint ''x'')],
                   failing = (\<lambda>k. False)\<rparr>,
      itemStore = emptyObjectStore,
      keyAgent = [], itemIndex = None, onItemUpdated = [], onUnlock = 0\<rparr>"

definition bankItem :: "string Item" where
  "bankItem =
     \<lparr>uuid = ''u1'', title = ''Bank'', updatedAt = None, createdAt = None, trashed = False,
      typeName = ''webforms.WebForm'', openContents = None, account = '''', locations = [],
      revision = None, parentRevision = None, content = Some ''c1''\<rparr>"

definition syncedItem :: "string Item" where
  "syncedItem = bankItem\<lparr>createdAt := Some 1, updatedAt := Some 2\<rparr>"

definition contentsEntries :: "ContentsEntry list" where
  "contentsEntries =
     [(''u1'', ''webforms.WebForm'', ''Bank'', ''bank.example'', 7, [], 0, ''N''),
      (''u2'', ''system.Tombstone'', [], [], 8, [], 0, ''N'')]"

text \<open>
  Modelled from the spec: \<open>item_store.generateRevisionId\<close> is not among the sources.
  Section 3: ``revision id is a deterministic function of (overview, content):
  identical inputs yield identical ids''; section 8: ``any change to either yields a
  different id''. An environment meets this contract when the ids that its
  \<open>generateRevisionId\<close> gives to two items with their contents agree exactly when the
  overviews of the items agree and the contents agree.
\<close>

definition contentAddressed :: "'c Env \<Rightarrow> bool" where
  "contentAddressed E \<longleftrightarrow>
     (\<forall>item c item' c'.
        generateRevisionId E item c = generateRevisionId E item' c' \<longleftrightarrow>
        overviewFromItem item = overviewFromItem item' \<and> c = c')"

text \<open>
  An environment that meets the contract: its revision id spells out a number that
  encodes the overview and the content one-to-one.
\<close>

definition encStr :: "string \<Rightarrow> nat" where
  "encStr s = list_encode (map of_char s)"

definition encStrs :: "string list \<Rightarrow> nat" where
  "encStrs ss = list_encode (map encStr ss)"

definition encOpt :: "('a \<Rightarrow> nat) \<Rightarrow> 'a option \<Rightarrow> nat" where
  "encOpt f x = (case x of None \<Rightarrow> 0 | Some v \<Rightarrow> Suc (f v))"

definition encOpenContents :: "ItemOpenContents \<Rightarrow> nat" where
  "encOpenContents oc = prod_encode (encStrs (tags oc), encStr (scope oc))"

definition encOverview :: "ItemOverview \<Rightarrow> nat" where
  "encOverview ov =
     list_encode
       [encStr (ov_title ov), int_encode (ov_updatedAt ov), int_encode (ov_createdAt ov),
        of_bool (ov_trashed ov), encStr (ov_typeName ov),
        encOpt encOpenContents (ov_openContents ov), encStrs (ov_locations ov),
        encStr (ov_account ov), encOpt encStr (ov_revision ov),
        encOpt encStr (ov_parentRevision ov)]"

definition digest :: "string Item \<Rightarrow> string \<Rightarrow> string" where
  "digest item c =
     replicate
       (prod_encode
          (case overviewFromItem item of Inl e \<Rightarrow> 0 | Inr ov \<Rightarrow> Suc (encOverview ov),
           encStr c))
       CHR ''r''"

definition digestEnv :: "string Env" where
  "digestEnv = toyEnv\<lparr>generateRevisionId := digest\<rparr>"

section \<open>Properties of key derivation and of the vault\<close>

lemma decryptKey_eq:
  "decryptKey c pwd ek salt it v =
     (if validationUnder c (candidateKey c pwd ek salt it) v = candidateKey c pwd ek salt it
      then Inr (candidateKey c pwd ek salt it) else Inl KeyValidationError)"
  by (simp add: decryptKey_def validationUnder_def candidateKey_def derivedKeyIv_def
      substring_def Let_def)

lemma toyCrypto_round_trip: "cbcRoundTrip toyCrypto"
  by (simp add: cbcRoundTrip_def toyCrypto_def)

lemma toyCrypto_validatesOnly: "validatesOnly toyCrypto (s # k @ [s] @ k) k"
  unfolding validatesOnly_def
proof (intro allI impI)
  fix x
  assume h: "validationUnder toyCrypto x (s # k @ [s] @ k) = x"
  show "x = k"
  proof (cases "take (length x + 1) (k @ [s] @ k) = x @ [s]")
    case True
    with h have d: "drop (length x + 1) (k @ [s] @ k) = x"
      by (simp add: validationUnder_def toyCrypto_def)
    have "take (length x + 1) (k @ [s] @ k) @ drop (length x + 1) (k @ [s] @ k) = k @ [s] @ k"
      by (rule append_take_drop_id)
    with True d have e: "(x @ [s]) @ x = (k @ [s]) @ k" by simp
    then have "length ((x @ [s]) @ x) = length ((k @ [s]) @ k)" by (rule arg_cong)
    then have "length x = length k" by simp
    with e show ?thesis by simp
  next
    case False
    with h have "CHR ''?'' # x @ k @ [s] @ k = x"
      by (simp add: validationUnder_def toyCrypto_def)
    then have "length (CHR ''?'' # x @ k @ [s] @ k) = length x" by (rule arg_cong)
    then show ?thesis by simp
  qed
qed

text \<open>
  C2. \<open>decryptKey\<close> validates by round trip. It returns a key exactly when that key is
  the candidate (the wrapped key decrypted under the AES key and IV split from the
  PBKDF2 output) and the validation blob, decrypted under the key and IV derived from
  the candidate and the blob's salt, equals the candidate; in every other case it fails
  with \<open>KeyValidationError\<close>. A 32-byte PBKDF2 output splits into a 16-byte key and a
  16-byte IV. For an entry that wraps \<open>k\<close> under the password, with a cipher whose
  decryption undoes its encryption, the password gives \<open>k\<close>; and a password whose
  candidate differs from \<open>k\<close> fails when the blob validates only \<open>k\<close>.
\<close>

theorem decryptKey_validates_by_round_trip:
  "(decryptKey c pwd ek salt it v = Inr r \<longleftrightarrow>
      r = candidateKey c pwd ek salt it \<and> validationUnder c r v = r) \<and>
   (decryptKey c pwd ek salt it v = Inl e \<longleftrightarrow>
      e = KeyValidationError \<and>
      validationUnder c (candidateKey c pwd ek salt it) v \<noteq> candidateKey c pwd ek salt it) \<and>
   (length (pbkdf2 c pwd salt it 32) = 32 \<longrightarrow>
      length (fst (derivedKeyIv c pwd salt it)) = 16 \<and>
      length (snd (derivedKeyIv c pwd salt it)) = 16) \<and>
   (cbcRoundTrip c \<and> wrapsKey c pwd ek salt it v k \<longrightarrow>
      decryptKey c pwd ek salt it v = Inr k) \<and>
   (validatesOnly c v k \<and> candidateKey c pwd' ek salt it \<noteq> k \<longrightarrow>
      decryptKey c pwd' ek salt it v = Inl KeyValidationError)"
proof (intro conjI impI)
  show "decryptKey c pwd ek salt it v = Inr r \<longleftrightarrow>
      r = candidateKey c pwd ek salt it \<and> validationUnder c r v = r"
    by (auto simp: decryptKey_eq)
  show "decryptKey c pwd ek salt it v = Inl e \<longleftrightarrow>
      e = KeyValidationError \<and>
      validationUnder c (candidateKey c pwd ek salt it) v \<noteq> candidateKey c pwd ek salt it"
    by (auto simp: decryptKey_eq)
  show "length (fst (derivedKeyIv c pwd salt it)) = 16"
    if "length (pbkdf2 c pwd salt it 32) = 32"
    using that by (simp add: derivedKeyIv_def)
  show "length (snd (derivedKeyIv c pwd salt it)) = 16"
    if "length (pbkdf2 c pwd salt it 32) = 32"
    using that by (simp add: derivedKeyIv_def)
  show "decryptKey c pwd ek salt it v = Inr k"
    if "cbcRoundTrip c \<and> wrapsKey c pwd ek salt it v k"
  proof -
    from that have rt: "\<And>key iv m. aesCbcDecrypt c key (aesCbcEncrypt c key m iv) iv = m"
      and w: "wrapsKey c pwd ek salt it v k"
      by (simp_all add: cbcRoundTrip_def)
    from w rt have cand: "candidateKey c pwd ek salt it = k"
      by (simp add: wrapsKey_def candidateKey_def)
    from w rt have "validationUnder c k v = k"
      by (simp add: wrapsKey_def validationUnder_def)
    with cand show ?thesis by (simp add: decryptKey_eq)
  qed
  show "decryptKey c pwd' ek salt it v = Inl KeyValidationError"
    if "validatesOnly c v k \<and> candidateKey c pwd' ek salt it \<noteq> k"
    using that by (auto simp: decryptKey_eq validatesOnly_def)
qed

theorem decryptKey_validates_by_round_trip_witness:
  "length (pbkdf2 toyCrypto ''pw'' ''n'' 1000 32) = 32 \<and>
   cbcRoundTrip toyCrypto \<and>
   wrapsKey toyCrypto ''pw'' (drop 1 (data goodEntry)) ''n'' 1000 (validation goodEntry)
     ''key'' \<and>
   validatesOnly toyCrypto (validation goodEntry) ''key'' \<and>
   candidateKey toyCrypto ''no'' (drop 1 (data goodEntry)) ''n'' 1000 \<noteq> ''key'' \<and>
   length (fst (derivedKeyIv toyCrypto ''pw'' ''n'' 1000)) = 16 \<and>
   length (snd (derivedKeyIv toyCrypto ''pw'' ''n'' 1000)) = 16 \<and>
   decryptKey toyCrypto ''pw'' (drop 1 (data goodEntry)) ''n'' 1000 (validation goodEntry)
     = Inr ''key'' \<and>
   decryptKey toyCrypto ''no'' (drop 1 (data goodEntry)) ''n'' 1000 (validation goodEntry)
     = Inl KeyValidationError"
proof -
  have h1: "length (pbkdf2 toyCrypto ''pw'' ''n'' 1000 32) = 32"
    by (simp add: toyCrypto_def)
  have h2: "cbcRoundTrip toyCrypto" by (rule toyCrypto_round_trip)
  have h3: "wrapsKey toyCrypto ''pw'' (drop 1 (data goodEntry)) ''n'' 1000
      (validation goodEntry) ''key''"
    by (simp add: wrapsKey_def derivedKeyIv_def toyCrypto_def goodEntry_def)
  have h4: "validatesOnly toyCrypto (validation goodEntry) ''key''"
    using toyCrypto_validatesOnly [of "CHR ''s''" "''key''"] by (simp add: goodEntry_def)
  have h5: "candidateKey toyCrypto ''no'' (drop 1 (data goodEntry)) ''n'' 1000 \<noteq> ''key''"
    by (simp add: candidateKey_def derivedKeyIv_def toyCrypto_def goodEntry_def)
  note t = decryptKey_validates_by_round_trip [of toyCrypto "''pw''"
      "drop 1 (data goodEntry)" "''n''" 1000 "validation goodEntry" _ _ "''key''" "''no''"]
  from t h1 h2 h3 h4 h5 show ?thesis by blast
qed

text \<open>
  A failed unlock keeps the keys that the earlier iterations of its loop registered:
  when the first entry validates and the second does not, the promise is rejected and
  the agent holds the first entry's key.
\<close>

lemma unlock_failure_keeps_earlier_key:
  assumes "decryptKey c pwd (snd (extractSaltAndCipherText c (data e1)))
             (fst (extractSaltAndCipherText c (data e1))) (iterations e1) (validation e1)
           = Inr key"
    and "decryptKey c pwd (snd (extractSaltAndCipherText c (data e2)))
             (fst (extractSaltAndCipherText c (data e2))) (iterations e2) (validation e2)
           = Inl err"
  shows "unlock c pwd (e1 # e2 # others) agent =
           (Inl err, addKey agent (identifier e1) key)"
  using assms by (simp add: Let_def)

text \<open>
  C1. \<open>Vault.unlock\<close> is not atomic with respect to key registration. With the key
  entries \<open>goodEntry\<close> and \<open>badEntry\<close>, the password \<open>pw\<close> and an agent that holds no key,
  the unlock fails with \<open>KeyValidationError\<close> and the agent is left holding the key of
  \<open>goodEntry\<close>, which that attempt added.
\<close>

theorem unlock_leaves_partial_keys:
  "unlock toyCrypto ''pw'' [goodEntry, badEntry] [] =
     (Inl KeyValidationError, [(''A1'', ''key'')])"
  by (simp add: decryptKey_def toyCrypto_def goodEntry_def badEntry_def substring_def
      Let_def addKey_def)

text \<open>
  \<open>Vault.isLocked\<close> holds exactly when some key entry's identifier is not among the
  agent's key ids; after the failed unlock above the vault still counts as locked.
\<close>

lemma isLocked_iff:
  "isLocked vaultKeys agent \<longleftrightarrow>
     (\<exists>entry\<in>set vaultKeys. identifier entry \<notin> set (listKeys agent))"
proof -
  have "fold (\<lambda>entry locked. if identifier entry \<notin> set (listKeys agent) then True else locked)
      vaultKeys b \<longleftrightarrow>
      b \<or> (\<exists>entry\<in>set vaultKeys. identifier entry \<notin> set (listKeys agent))" for b
    by (induction vaultKeys arbitrary: b) auto
  then show ?thesis by (simp add: isLocked_def)
qed

lemma isLocked_after_failed_unlock:
  "isLocked [goodEntry, badEntry] (snd (unlock toyCrypto ''pw'' [goodEntry, badEntry] []))"
  by (simp add: isLocked_iff listKeys_def isArrayIndex_def isDigit_def Let_def decryptKey_def toyCrypto_def goodEntry_def
      badEntry_def substring_def Let_def addKey_def)

text \<open>
  \<open>Store.unlock\<close>, which does the same for the local store, registers no key when it
  fails.
\<close>

lemma Store_unlock_failure_registers_nothing:
  "fst (Store_unlock E st pwd) \<noteq> Inr () \<Longrightarrow> snd (Store_unlock E st pwd) = st"
  by (auto simp: Store_unlock_def Let_def split: sum.splits)

lemma fold_last_match:
  "fold (\<lambda>key result. if P key then Some (f key) else result) keys r =
     (if filter P keys = [] then r else Some (f (last (filter P keys))))"
  by (induction keys rule: rev_induct) auto

lemma agent_decrypt_not_level: "agent_decrypt c agent i d p \<noteq> Inl (NoKeyForLevelError l)"
  by (auto simp: agent_decrypt_def split: option.splits CryptoAlgorithm.splits)

lemma agent_encrypt_not_level: "agent_encrypt c agent i d p \<noteq> Inl (NoKeyForLevelError l)"
  by (auto simp: agent_encrypt_def split: option.splits CryptoAlgorithm.splits)

lemma decryptItemData_eq:
  "decryptItemData c keys agent lvl dat =
     (if filter (\<lambda>key. level key = lvl) keys = [] then Inl (NoKeyForLevelError lvl)
      else agent_decrypt c agent (identifier (last (filter (\<lambda>key. level key = lvl) keys))) dat
             \<lparr>algo = AES128_OpenSSLKey\<rparr>)"
  unfolding decryptItemData_def Let_def
  by (simp add: fold_last_match [where P = "\<lambda>key. level key = lvl"])

lemma encryptItemData_eq:
  "encryptItemData c keys agent lvl dat =
     (if filter (\<lambda>key. level key = lvl) keys = [] then Inl (NoKeyForLevelError lvl)
      else agent_encrypt c agent (identifier (last (filter (\<lambda>key. level key = lvl) keys))) dat
             \<lparr>algo = AES128_OpenSSLKey\<rparr>)"
  unfolding encryptItemData_def Let_def
  by (simp add: fold_last_match [where P = "\<lambda>key. level key = lvl"])

text \<open>The vault keeps no entry of level \<open>SL3\<close>, so no key is found for that level.\<close>

lemma skipped_level_has_no_key:
  "decryptItemData c (readKeyData keyList) agent ''SL3'' dat = Inl (NoKeyForLevelError ''SL3'')"
  by (simp add: decryptItemData_eq readKeyData_def)

lemma last_filter_split:
  "(\<forall>k'\<in>set post. \<not> P k') \<Longrightarrow> P k \<Longrightarrow>
     filter P (pre @ k # post) \<noteq> [] \<and> last (filter P (pre @ k # post)) = k"
  by (simp add: filter_empty_conv)

text \<open>
  On any list of key entries that the vault holds, the two operations fail with
  \<open>NoKeyForLevelError\<close> exactly when no entry has the requested level, and otherwise are
  the key agent's operations under the identifier of the last entry with that level.
\<close>

lemma itemData_by_level_of_keys:
  "((\<forall>key\<in>set keys. level key \<noteq> lvl) \<longleftrightarrow>
      decryptItemData c keys agent lvl dat = Inl (NoKeyForLevelError lvl)) \<and>
   ((\<forall>key\<in>set keys. level key \<noteq> lvl) \<longleftrightarrow>
      encryptItemData c keys agent lvl dat = Inl (NoKeyForLevelError lvl)) \<and>
   (\<forall>pre key post. keys = pre @ key # post \<and> level key = lvl \<and>
        (\<forall>key'\<in>set post. level key' \<noteq> lvl) \<longrightarrow>
      decryptItemData c keys agent lvl dat =
        agent_decrypt c agent (identifier key) dat \<lparr>algo = AES128_OpenSSLKey\<rparr> \<and>
      encryptItemData c keys agent lvl dat =
        agent_encrypt c agent (identifier key) dat \<lparr>algo = AES128_OpenSSLKey\<rparr>)"
proof (intro conjI allI impI)
  show "(\<forall>key\<in>set keys. level key \<noteq> lvl) \<longleftrightarrow>
      decryptItemData c keys agent lvl dat = Inl (NoKeyForLevelError lvl)"
    by (auto simp: decryptItemData_eq filter_empty_conv agent_decrypt_not_level)
  show "(\<forall>key\<in>set keys. level key \<noteq> lvl) \<longleftrightarrow>
      encryptItemData c keys agent lvl dat = Inl (NoKeyForLevelError lvl)"
    by (auto simp: encryptItemData_eq filter_empty_conv agent_encrypt_not_level)
next
  fix pre key post
  assume h: "keys = pre @ key # post \<and> level key = lvl \<and>
    (\<forall>key'\<in>set post. level key' \<noteq> lvl)"
  then have f: "filter (\<lambda>key. level key = lvl) keys \<noteq> [] \<and>
      last (filter (\<lambda>key. level key = lvl) keys) = key"
    using last_filter_split [of post "\<lambda>key. level key = lvl" key pre] by simp
  show "decryptItemData c keys agent lvl dat =
        agent_decrypt c agent (identifier key) dat \<lparr>algo = AES128_OpenSSLKey\<rparr>"
    using f by (simp add: decryptItemData_eq)
  show "encryptItemData c keys agent lvl dat =
        agent_encrypt c agent (identifier key) dat \<lparr>algo = AES128_OpenSSLKey\<rparr>"
    using f by (simp add: encryptItemData_eq)
qed

lemma readKeyData_split:
  "level key \<noteq> ''SL3'' \<Longrightarrow>
     readKeyData (pre @ key # post) = readKeyData pre @ key # readKeyData post"
  by (simp add: readKeyData_def)

lemma readKeyData_levels:
  "(\<forall>key\<in>set (readKeyData keyList). level key \<noteq> lvl) \<longleftrightarrow>
     (\<forall>key\<in>set keyList. level key = lvl \<longrightarrow> lvl = ''SL3'')"
  by (auto simp: readKeyData_def)

text \<open>
  C8, as stated, fails on the persisted key entries. The key list \<open>[goodEntry,
  legacyEntry]\<close> of \<open>encryptionKeys.js\<close> has the entry \<open>legacyEntry\<close> of level \<open>SL3\<close>, and
  yet on the vault that reads this list \<open>decryptItemData\<close> and \<open>encryptItemData\<close> at
  level \<open>SL3\<close> fail with \<open>NoKeyForLevelError\<close>: \<open>Vault.readKeyData\<close> skips the entries of
  that level.
\<close>

theorem itemData_persisted_level_counterexample:
  "legacyEntry \<in> set [goodEntry, legacyEntry] \<and> level legacyEntry = ''SL3'' \<and>
   decryptItemData toyCrypto (readKeyData [goodEntry, legacyEntry]) [(''A1'', ''key'')]
     ''SL3'' ''keyhello'' = Inl (NoKeyForLevelError ''SL3'') \<and>
   encryptItemData toyCrypto (readKeyData [goodEntry, legacyEntry]) [(''A1'', ''key'')]
     ''SL3'' ''hello'' = Inl (NoKeyForLevelError ''SL3'')"
  by (simp add: decryptItemData_def encryptItemData_def readKeyData_def goodEntry_def
      legacyEntry_def Let_def)

text \<open>
  C8, amended. For every key list \<open>keyList\<close> persisted in \<open>encryptionKeys.js\<close>, every
  level and data, on the vault that has read the list (\<open>Vault.readKeyData\<close>, which skips
  the entries of level \<open>SL3\<close>): \<open>Vault.decryptItemData(level, data)\<close> and
  \<open>Vault.encryptItemData(level, data)\<close> fail with \<open>NoKeyForLevelError\<close> exactly when
  every persisted entry of the requested level is one of the skipped level \<open>SL3\<close> (so
  always at level \<open>SL3\<close>, and at any other level exactly when no persisted entry has
  it); and at a level other than \<open>SL3\<close> that a persisted entry has they are the key
  agent's \<open>decrypt\<close> (\<open>encrypt\<close>) under the identifier of that entry (the last such
  entry, if there are several) and the algorithm \<open>AES128_OpenSSLKey\<close>.
\<close>

theorem itemData_delegates_by_loaded_level:
  "((\<forall>key\<in>set keyList. level key = lvl \<longrightarrow> lvl = ''SL3'') \<longleftrightarrow>
      decryptItemData c (readKeyData keyList) agent lvl dat = Inl (NoKeyForLevelError lvl)) \<and>
   ((\<forall>key\<in>set keyList. level key = lvl \<longrightarrow> lvl = ''SL3'') \<longleftrightarrow>
      encryptItemData c (readKeyData keyList) agent lvl dat = Inl (NoKeyForLevelError lvl)) \<and>
   (\<forall>pre key post. keyList = pre @ key # post \<and> level key = lvl \<and> lvl \<noteq> ''SL3'' \<and>
        (\<forall>key'\<in>set post. level key' \<noteq> lvl) \<longrightarrow>
      decryptItemData c (readKeyData keyList) agent lvl dat =
        agent_decrypt c agent (identifier key) dat \<lparr>algo = AES128_OpenSSLKey\<rparr> \<and>
      encryptItemData c (readKeyData keyList) agent lvl dat =
        agent_encrypt c agent (identifier key) dat \<lparr>algo = AES128_OpenSSLKey\<rparr>)"
proof (intro conjI allI impI)
  note t = itemData_by_level_of_keys [of "readKeyData keyList" lvl c agent dat,
      unfolded readKeyData_levels]
  from t show "(\<forall>key\<in>set keyList. level key = lvl \<longrightarrow> lvl = ''SL3'') \<longleftrightarrow>
      decryptItemData c (readKeyData keyList) agent lvl dat = Inl (NoKeyForLevelError lvl)"
    by blast
  from t show "(\<forall>key\<in>set keyList. level key = lvl \<longrightarrow> lvl = ''SL3'') \<longleftrightarrow>
      encryptItemData c (readKeyData keyList) agent lvl dat = Inl (NoKeyForLevelError lvl)"
    by blast
next
  fix pre key post
  assume h: "keyList = pre @ key # post \<and> level key = lvl \<and> lvl \<noteq> ''SL3'' \<and>
    (\<forall>key'\<in>set post. level key' \<noteq> lvl)"
  then have s: "readKeyData keyList = readKeyData pre @ key # readKeyData post"
    using readKeyData_split [of key pre post] by simp
  from h have p: "\<forall>key'\<in>set (readKeyData post). level key' \<noteq> lvl"
    by (simp add: readKeyData_def)
  note t = itemData_by_level_of_keys [of "readKeyData keyList" lvl c agent dat]
  from t s p h show "decryptItemData c (readKeyData keyList) agent lvl dat =
        agent_decrypt c agent (identifier key) dat \<lparr>algo = AES128_OpenSSLKey\<rparr>"
    by blast
  from t s p h show "encryptItemData c (readKeyData keyList) agent lvl dat =
        agent_encrypt c agent (identifier key) dat \<lparr>algo = AES128_OpenSSLKey\<rparr>"
    by blast
qed

theorem itemData_delegates_by_loaded_level_witness:
  "level goodEntry \<noteq> ''SL9'' \<and> level legacyEntry \<noteq> ''SL9'' \<and> level badEntry \<noteq> ''SL9'' \<and>
   decryptItemData toyCrypto (readKeyData [goodEntry, legacyEntry, badEntry])
     [(''A1'', ''key'')] ''SL9'' ''keyhello'' = Inl (NoKeyForLevelError ''SL9'') \<and>
   encryptItemData toyCrypto (readKeyData [goodEntry, legacyEntry, badEntry])
     [(''A1'', ''key'')] ''SL9'' ''hello'' = Inl (NoKeyForLevelError ''SL9'') \<and>
   level legacyEntry = ''SL3'' \<and>
   decryptItemData toyCrypto (readKeyData [goodEntry, legacyEntry, badEntry])
     [(''A1'', ''key'')] ''SL3'' ''keyhello'' = Inl (NoKeyForLevelError ''SL3'') \<and>
   encryptItemData toyCrypto (readKeyData [goodEntry, legacyEntry, badEntry])
     [(''A1'', ''key'')] ''SL3'' ''hello'' = Inl (NoKeyForLevelError ''SL3'') \<and>
   [goodEntry, legacyEntry, badEntry] = [] @ goodEntry # [legacyEntry, badEntry] \<and>
   level goodEntry = ''SL5'' \<and> ''SL5'' \<noteq> ''SL3'' \<and>
   level legacyEntry \<noteq> ''SL5'' \<and> level badEntry \<noteq> ''SL5'' \<and>
   decryptItemData toyCrypto (readKeyData [goodEntry, legacyEntry, badEntry])
     [(''A1'', ''key'')] ''SL5'' ''keyhello'' = Inr ''hello'' \<and>
   encryptItemData toyCrypto (readKeyData [goodEntry, legacyEntry, badEntry])
     [(''A1'', ''key'')] ''SL5'' ''hello'' = Inr ''keyhello''"
proof -
  let ?L = "[goodEntry, legacyEntry, badEntry]" and ?A = "[(''A1'', ''key'')]"
  have l: "level goodEntry = ''SL5''" "level legacyEntry = ''SL3''" "level badEntry = ''SL4''"
    by (simp_all add: goodEntry_def legacyEntry_def badEntry_def)
  have n9: "\<forall>key\<in>set ?L. level key = ''SL9'' \<longrightarrow> ''SL9'' = ''SL3''"
    by (simp add: l)
  have n3: "\<forall>key\<in>set ?L. level key = ''SL3'' \<longrightarrow> ''SL3'' = ''SL3''"
    by simp
  have s: "?L = [] @ goodEntry # [legacyEntry, badEntry] \<and> level goodEntry = ''SL5'' \<and>
      ''SL5'' \<noteq> ''SL3'' \<and> (\<forall>key'\<in>set [legacyEntry, badEntry]. level key' \<noteq> ''SL5'')"
    by (simp add: l)
  have d: "agent_decrypt toyCrypto ?A (identifier goodEntry) ''keyhello''
      \<lparr>algo = AES128_OpenSSLKey\<rparr> = Inr ''hello''"
    by (simp add: agent_decrypt_def toyCrypto_def goodEntry_def)
  have e: "agent_encrypt toyCrypto ?A (identifier goodEntry) ''hello''
      \<lparr>algo = AES128_OpenSSLKey\<rparr> = Inr ''keyhello''"
    by (simp add: agent_encrypt_def toyCrypto_def goodEntry_def)
  note t9 = itemData_delegates_by_loaded_level [of ?L "''SL9''" toyCrypto ?A]
  note t3 = itemData_delegates_by_loaded_level [of ?L "''SL3''" toyCrypto ?A]
  note t5 = itemData_delegates_by_loaded_level [of ?L "''SL5''" toyCrypto ?A]
  have a9: "decryptItemData toyCrypto (readKeyData ?L) ?A ''SL9'' ''keyhello'' =
      Inl (NoKeyForLevelError ''SL9'')"
    using t9 [of "''keyhello''"] n9 by blast
  have b9: "encryptItemData toyCrypto (readKeyData ?L) ?A ''SL9'' ''hello'' =
      Inl (NoKeyForLevelError ''SL9'')"
    using t9 [of "''hello''"] n9 by blast
  have a3: "decryptItemData toyCrypto (readKeyData ?L) ?A ''SL3'' ''keyhello'' =
      Inl (NoKeyForLevelError ''SL3'')"
    using t3 [of "''keyhello''"] n3 by blast
  have b3: "encryptItemData toyCrypto (readKeyData ?L) ?A ''SL3'' ''hello'' =
      Inl (NoKeyForLevelError ''SL3'')"
    using t3 [of "''hello''"] n3 by blast
  have a5: "decryptItemData toyCrypto (readKeyData ?L) ?A ''SL5'' ''keyhello'' = Inr ''hello''"
    using t5 [of "''keyhello''"] s d by metis
  have b5: "encryptItemData toyCrypto (readKeyData ?L) ?A ''SL5'' ''hello'' = Inr ''keyhello''"
    using t5 [of "''hello''"] s e by metis
  from l a9 b9 a3 b3 a5 b5 show ?thesis by simp
qed

section \<open>Properties of the local store: listing and locking\<close>

lemma triple: "x = (fst x, fst (snd x), snd (snd x))"
  by simp

lemma listItems_fold:
  "fold (\<lambda>(key, overview) items.
            let item = (itemFromOverview key overview :: 'c Item)
            in if \<not> isTombstone item \<or> includeTombstones opts = Some True
               then items @ [item] else items) overviewMap acc =
     acc @ (listed opts overviewMap :: 'c Item list)"
  by (induction overviewMap arbitrary: acc) (auto simp: listed_def Let_def)

lemma Store_listItems_eq:
  "Store_listItems E st opts =
     (case itemIndex_get E st of
        (Inl e, st1) \<Rightarrow> (Inl e, st1)
      | (Inr overviewMap, st1) \<Rightarrow> (Inr (listed opts overviewMap), st1))"
  unfolding Store_listItems_def listItems_fold append_Nil by (rule refl)

lemma fold_snoc_filter:
  "fold (\<lambda>x acc. if P x then acc else acc @ [f x]) xs acc0 =
     acc0 @ map f (filter (\<lambda>x. \<not> P x) xs)"
  by (induction xs arbitrary: acc0) auto

lemma Vault_listItems_eq:
  "Vault_listItems (Inr es) =
     Inr (filter (\<lambda>item. \<not> VaultItem_isTombstone item) (map itemFromEntry es))"
  using fold_snoc_filter [of "\<lambda>e. VaultItem_isTombstone (itemFromEntry e)" itemFromEntry
      es "[]"]
  by (simp add: Vault_listItems_def Let_def filter_map comp_def)

text \<open>
  C9. Tombstones at the listing interface. A successful \<open>Store.listItems(opts)\<close> returns
  the entries of the overview map as items, in the map's order, and returns an item that
  is a tombstone only when \<open>opts.includeTombstones\<close> is true; with the default options
  it returns no tombstone. A successful \<open>Vault.listItems()\<close> returns the items of the
  entries of \<open>contents.js\<close> without the tombstones.
\<close>

theorem listItems_omit_tombstones:
  "(Store_listItems E st opts = (Inr items, st') \<longrightarrow>
      (\<exists>overviewMap. itemIndex_get E st = (Inr overviewMap, st') \<and>
         items = listed opts overviewMap) \<and>
      (\<forall>item\<in>set items. isTombstone item \<longrightarrow> includeTombstones opts = Some True)) \<and>
   (Store_listItems E st \<lparr>includeTombstones = None\<rparr> = (Inr items0, st0) \<longrightarrow>
      (\<forall>item\<in>set items0. \<not> isTombstone item)) \<and>
   (Vault_listItems contents = Inr vaultItems \<longrightarrow>
      (\<exists>es. contents = Inr es \<and>
         vaultItems = filter (\<lambda>item. \<not> VaultItem_isTombstone item) (map itemFromEntry es)) \<and>
      (\<forall>item\<in>set vaultItems. \<not> VaultItem_isTombstone item))"
proof (intro conjI impI)
  assume h: "Store_listItems E st opts = (Inr items, st')"
  then show e: "\<exists>overviewMap. itemIndex_get E st = (Inr overviewMap, st') \<and>
         items = listed opts overviewMap"
    by (auto simp: Store_listItems_eq split: prod.splits sum.splits)
  then show "\<forall>item\<in>set items. isTombstone item \<longrightarrow> includeTombstones opts = Some True"
    by (auto simp: listed_def)
next
  assume "Store_listItems E st \<lparr>includeTombstones = None\<rparr> = (Inr items0, st0)"
  then show "\<forall>item\<in>set items0. \<not> isTombstone item"
    by (auto simp: Store_listItems_eq listed_def split: prod.splits sum.splits)
next
  assume h: "Vault_listItems contents = Inr vaultItems"
  then obtain es where c: "contents = Inr es"
    by (cases contents) (simp_all add: Vault_listItems_def)
  with h show e: "\<exists>es. contents = Inr es \<and>
         vaultItems = filter (\<lambda>item. \<not> VaultItem_isTombstone item) (map itemFromEntry es)"
    by (simp add: Vault_listItems_eq)
  then show "\<forall>item\<in>set vaultItems. \<not> VaultItem_isTombstone item" by auto
qed

theorem listItems_omit_tombstones_witness:
  "fst (Store_listItems toyEnv cachedStore \<lparr>includeTombstones = None\<rparr>) =
     Inr [itemFromOverview ''u1'' (toyEntry ''Bank'' ''webforms.WebForm'')] \<and>
   \<not> isTombstone (itemFromOverview ''u1'' (toyEntry ''Bank'' ''webforms.WebForm'') :: string Item) \<and>
   fst (Store_listItems toyEnv cachedStore \<lparr>includeTombstones = Some True\<rparr>) =
     Inr [itemFromOverview ''u1'' (toyEntry ''Bank'' ''webforms.WebForm''),
          itemFromOverview ''u2'' (toyEntry ''Gone'' ''system.Tombstone'')] \<and>
   Vault_listItems (Inr contentsEntries) = Inr [itemFromEntry (hd contentsEntries)] \<and>
   \<not> VaultItem_isTombstone (itemFromEntry (hd contentsEntries))"
proof -
  let ?d = "\<lparr>includeTombstones = None\<rparr>" and ?a = "\<lparr>includeTombstones = Some True\<rparr>"
  let ?bank = "itemFromOverview ''u1'' (toyEntry ''Bank'' ''webforms.WebForm'') :: string Item"
  have e1: "Store_listItems toyEnv cachedStore ?d = (Inr [?bank], cachedStore)"
    by (simp add: Store_listItems_def itemIndex_get_def cachedStore_def isTombstone_def
        itemFromOverview_def toyEntry_def)
  have e2: "Store_listItems toyEnv cachedStore ?a =
      (Inr [?bank, itemFromOverview ''u2'' (toyEntry ''Gone'' ''system.Tombstone'')],
       cachedStore)"
    by (simp add: Store_listItems_def itemIndex_get_def cachedStore_def isTombstone_def
        itemFromOverview_def toyEntry_def)
  have e3: "Vault_listItems (Inr contentsEntries) = Inr [itemFromEntry (hd contentsEntries)]"
    by (simp add: Vault_listItems_def contentsEntries_def itemFromEntry_def
        VaultItem_isTombstone_def dateFromUNIXDate_def)
  note t = listItems_omit_tombstones [where E = toyEnv and st = cachedStore and opts = ?d
      and items = "[?bank]" and st' = cachedStore and ?items0.0 = "[?bank]"
      and ?st0.0 = cachedStore and contents = "Inr contentsEntries"
      and vaultItems = "[itemFromEntry (hd contentsEntries)]"]
  from t e1 have n1: "\<not> isTombstone ?bank" by simp
  from t e3 have n2: "\<not> VaultItem_isTombstone (itemFromEntry (hd contentsEntries))" by simp
  from e1 e2 e3 n1 n2 show ?thesis by simp
qed

lemma readItemIndex_frame:
  "itemStore st1 = itemStore st \<Longrightarrow> keyAgent st1 = keyAgent st \<Longrightarrow>
     readItemIndex E st1 = readItemIndex E st"
  by (auto simp: readItemIndex_def overviewKey_def Store_decrypt_def
      split: sum.splits option.splits list.splits ItemStoreValue.splits)

lemma listItems_uncached:
  "itemIndex st = None \<Longrightarrow>
     Store_listItems E st opts =
       (case readItemIndex E st of
          Inl e \<Rightarrow> (Inl e, st)
        | Inr m \<Rightarrow> (Inr (listed opts m), st\<lparr>itemIndex := Some m\<rparr>))"
  by (simp add: Store_listItems_eq itemIndex_get_def split: sum.splits)

text \<open>
  C6. Lock invalidates the index cache. The listener that the store registers on the
  key agent's lock event clears the cached overview map and leaves the item store as it
  is. \<open>listItems()\<close> on the store after the event is the outcome of the loader
  \<open>readItemIndex\<close> on the persisted state, whatever map was cached before: while the
  agent holds no key the loader rejects with the overview-key error, and once keys are
  registered again it reads and decrypts what is stored under \<open>index\<close>.
\<close>

theorem lock_clears_index_cache:
  "itemIndex (onLockListener st) = None \<and>
   itemIndex (Store_lock st) = None \<and>
   itemStore (Store_lock st) = itemStore st \<and>
   Store_listItems E (onLockListener st) opts =
     (case readItemIndex E st of
        Inl e \<Rightarrow> (Inl e, onLockListener st)
      | Inr m \<Rightarrow> (Inr (listed opts m), st\<lparr>itemIndex := Some m\<rparr>)) \<and>
   Store_listItems E (Store_lock st) opts = (Inl OverviewKeyError, Store_lock st) \<and>
   Store_listItems E ((Store_lock st)\<lparr>keyAgent := agent\<rparr>) opts =
     (case readItemIndex E (st\<lparr>keyAgent := agent\<rparr>) of
        Inl e \<Rightarrow> (Inl e, (Store_lock st)\<lparr>keyAgent := agent\<rparr>)
      | Inr m \<Rightarrow> (Inr (listed opts m), st\<lparr>keyAgent := agent, itemIndex := Some m\<rparr>))"
proof (intro conjI)
  let ?l = "onLockListener st" and ?k = "Store_lock st"
  show u1: "itemIndex ?l = None"
    by (simp add: onLockListener_def itemIndex_clear_def)
  show u2: "itemIndex ?k = None"
    by (simp add: Store_lock_def onLockListener_def itemIndex_clear_def)
  show "itemStore ?k = itemStore st"
    by (simp add: Store_lock_def onLockListener_def itemIndex_clear_def)
  have r1: "readItemIndex E ?l = readItemIndex E st"
    by (rule readItemIndex_frame) (simp_all add: onLockListener_def itemIndex_clear_def)
  have s1: "?l\<lparr>itemIndex := Some m\<rparr> = st\<lparr>itemIndex := Some m\<rparr>" for m
    by (simp add: onLockListener_def itemIndex_clear_def)
  show "Store_listItems E ?l opts =
     (case readItemIndex E st of
        Inl e \<Rightarrow> (Inl e, ?l)
      | Inr m \<Rightarrow> (Inr (listed opts m), st\<lparr>itemIndex := Some m\<rparr>))"
    unfolding listItems_uncached [OF u1] r1 s1 by (rule refl)
  have r2: "readItemIndex E ?k = Inl OverviewKeyError"
    by (simp add: readItemIndex_def overviewKey_def Store_lock_def onLockListener_def
        itemIndex_clear_def forgetKeys_def listKeys_def isArrayIndex_def isDigit_def Let_def)
  show "Store_listItems E ?k opts = (Inl OverviewKeyError, ?k)"
    unfolding listItems_uncached [OF u2] r2 by simp
  have u3: "itemIndex (?k\<lparr>keyAgent := agent\<rparr>) = None"
    by (simp add: Store_lock_def onLockListener_def itemIndex_clear_def)
  have r3: "readItemIndex E (?k\<lparr>keyAgent := agent\<rparr>) =
      readItemIndex E (st\<lparr>keyAgent := agent\<rparr>)"
    by (rule readItemIndex_frame)
      (simp_all add: Store_lock_def onLockListener_def itemIndex_clear_def)
  have s3: "?k\<lparr>keyAgent := agent, itemIndex := Some m\<rparr> =
      st\<lparr>keyAgent := agent, itemIndex := Some m\<rparr>" for m
    by (simp add: Store_lock_def onLockListener_def itemIndex_clear_def)
  show "Store_listItems E (?k\<lparr>keyAgent := agent\<rparr>) opts =
     (case readItemIndex E (st\<lparr>keyAgent := agent\<rparr>) of
        Inl e \<Rightarrow> (Inl e, ?k\<lparr>keyAgent := agent\<rparr>)
      | Inr m \<Rightarrow> (Inr (listed opts m), st\<lparr>keyAgent := agent, itemIndex := Some m\<rparr>))"
    unfolding listItems_uncached [OF u3] r3 s3 by (rule refl)
qed

theorem lock_clears_index_cache_witness:
  "fst (Store_listItems toyEnv cachedStore \<lparr>includeTombstones = None\<rparr>) =
     Inr [itemFromOverview ''u1'' (toyEntry ''Bank'' ''webforms.WebForm'')] \<and>
   itemIndex (Store_lock cachedStore) = None \<and>
   fst (Store_listItems toyEnv (Store_lock cachedStore) \<lparr>includeTombstones = None\<rparr>) =
     Inl OverviewKeyError \<and>
   fst (Store_listItems toyEnv ((Store_lock cachedStore)\<lparr>keyAgent := [(''A1'', ''key'')]\<rparr>)
          \<lparr>includeTombstones = None\<rparr>) =
     Inr [itemFromOverview ''u9'' (toyEntry ''u9'' ''webforms.WebForm'')]"
proof -
  note toy_defs = toyEnv_def toyCrypto_def cachedStore_def toyEntry_def
  let ?d = "\<lparr>includeTombstones = None\<rparr>"
  have e1: "fst (Store_listItems toyEnv cachedStore ?d) =
      Inr [itemFromOverview ''u1'' (toyEntry ''Bank'' ''webforms.WebForm'')]"
    by (simp add: Store_listItems_def itemIndex_get_def cachedStore_def isTombstone_def
        itemFromOverview_def toyEntry_def)
  have e2: "readItemIndex toyEnv (cachedStore\<lparr>keyAgent := [(''A1'', ''key'')]\<rparr>) =
      Inr [(''u9'', toyEntry ''u9'' ''webforms.WebForm'')]"
    by (simp add: readItemIndex_def overviewKey_def listKeys_def isArrayIndex_def isDigit_def Let_def os_get_def Store_decrypt_def
        agent_decrypt_def parsed_def toy_defs)
  have e3: "listed ?d [(''u9'', toyEntry ''u9'' ''webforms.WebForm'')] =
      [itemFromOverview ''u9'' (toyEntry ''u9'' ''webforms.WebForm'') :: string Item]"
    by (simp add: listed_def isTombstone_def itemFromOverview_def toyEntry_def)
  note t = lock_clears_index_cache [where st = cachedStore and E = toyEnv and opts = ?d
      and agent = "[(''A1'', ''key'')]"]
  from t have a: "itemIndex (Store_lock cachedStore) = None" by simp
  from t have b: "fst (Store_listItems toyEnv (Store_lock cachedStore) ?d) =
      Inl OverviewKeyError" by simp
  from t e2 e3 have c:
    "fst (Store_listItems toyEnv ((Store_lock cachedStore)\<lparr>keyAgent := [(''A1'', ''key'')]\<rparr>)
        ?d) = Inr [itemFromOverview ''u9'' (toyEntry ''u9'' ''webforms.WebForm'')]"
    by simp
  from e1 a b c show ?thesis by simp
qed

section \<open>Properties of the local store: saving an item\<close>

lemma os_get_set:
  "os_set s k v = (r, s1) \<Longrightarrow>
     failing s1 = failing s \<and>
     (\<forall>k'. k' \<noteq> k \<longrightarrow> os_get s1 k' = os_get s k') \<and>
     (r = Inr () \<longrightarrow> os_get s1 k = Some v) \<and>
     (r = Inr () \<longleftrightarrow> \<not> failing s k) \<and>
     (r \<noteq> Inr () \<longrightarrow> s1 = s \<and> r = Inl (StorageError k))"
  by (auto simp: os_set_def os_get_def update_conv' split: if_splits)

lemma revisionKey_not_index: "revisionKey r \<noteq> ''index''"
  by (simp add: revisionKey_def)

lemma itemIndex_get_cases:
  "itemIndex_get E st = (r, st1) \<Longrightarrow>
     (\<exists>v. r = Inr v \<and> itemIndex st = Some v \<and> st1 = st) \<or>
     (\<exists>v. r = Inr v \<and> itemIndex st = None \<and> readItemIndex E st = Inr v \<and>
          st1 = st\<lparr>itemIndex := Some v\<rparr>) \<or>
     (\<exists>e. r = Inl e \<and> itemIndex st = None \<and> readItemIndex E st = Inl e \<and> st1 = st)"
  unfolding itemIndex_get_def
  by (cases "itemIndex st"; cases "readItemIndex E st"; simp; blast)

lemma sameButIndex_refl: "sameButIndex st st"
  by (simp add: sameButIndex_def)

lemma sameButIndex_trans: "sameButIndex a b \<Longrightarrow> sameButIndex b c \<Longrightarrow> sameButIndex a c"
  by (simp add: sameButIndex_def)

lemma itemIndex_get_frame:
  "itemIndex_get E st = (r, st1) \<Longrightarrow> sameButIndex st st1 \<and> itemStore st1 = itemStore st"
  by (drule itemIndex_get_cases) (auto simp: sameButIndex_def)

lemma overviewKey_frame:
  "keyAgent st1 = keyAgent st \<Longrightarrow> overviewKey st1 = overviewKey st"
  by (simp add: overviewKey_def)

lemma Store_encrypt_frame:
  "keyAgent st1 = keyAgent st \<Longrightarrow> Store_encrypt E st1 key text = Store_encrypt E st key text"
  by (simp add: Store_encrypt_def)

lemma writeItemIndex_frame:
  "writeItemIndex E st m = (r, st1) \<Longrightarrow>
     sameButIndex st st1 \<and> itemIndex st1 = itemIndex st \<and>
     (r = Inr () \<longrightarrow>
        (\<exists>key enc. overviewKey st = Inr key \<and>
           Store_encrypt E st key (stringifyIndex E m) = Inr enc \<and>
           os_get (itemStore st1) ''index'' = Some (Encrypted enc)))"
  by (auto simp: writeItemIndex_def sameButIndex_def Let_def
      split: sum.splits prod.splits dest!: os_get_set)

lemma itemIndex_set_frame:
  "itemIndex_set E st m = (r, st1) \<Longrightarrow>
     sameButIndex st st1 \<and>
     (r = Inr () \<longrightarrow>
        itemIndex st1 = Some m \<and>
        (\<exists>key enc. overviewKey st = Inr key \<and>
           Store_encrypt E st key (stringifyIndex E m) = Inr enc \<and>
           os_get (itemStore st1) ''index'' = Some (Encrypted enc))) \<and>
     (r \<noteq> Inr () \<longrightarrow> itemIndex st1 = itemIndex st)"
  by (auto simp: itemIndex_set_def sameButIndex_def split: sum.splits prod.splits
      dest!: writeItemIndex_frame)


lemma updateIndex_single_unfold:
  "updateIndex E st [item] =
     (case itemIndex_get E st of
        (Inl e, st0) \<Rightarrow> (Inl e, st0)
      | (Inr m, st0) \<Rightarrow>
          (case overviewFromItem item of
             Inl e \<Rightarrow> (Inl e, st0\<lparr>itemIndex := Some m\<rparr>)
           | Inr ov \<Rightarrow>
               itemIndex_set E
                 (st0\<lparr>itemIndex := Some (AList.update (uuid item)
                    (indexEntry ov
                       (lastSyncTime (os_get (itemStore st0) (''lastSynced/'' @ uuid item))))
                    m)\<rparr>)
                 (AList.update (uuid item)
                    (indexEntry ov
                       (lastSyncTime (os_get (itemStore st0) (''lastSynced/'' @ uuid item))))
                    m)))"
  by (simp add: updateIndex_def Let_def getLastSyncEntries_def
      split: prod.splits sum.splits)

lemma updateIndex_single:
  assumes u: "updateIndex E st [item] = (r, st1)"
  shows "sameButIndex st st1 \<and>
     (r = Inr () \<longrightarrow>
        (\<exists>m ov key enc.
           fst (itemIndex_get E st) = Inr m \<and> overviewFromItem item = Inr ov \<and>
           itemIndex st1 = Some (AList.update (uuid item)
              (indexEntry ov (lastSyncTime (os_get (itemStore st) (''lastSynced/'' @ uuid item)))) m) \<and>
           overviewKey st = Inr key \<and>
           Store_encrypt E st key (stringifyIndex E (AList.update (uuid item)
              (indexEntry ov (lastSyncTime (os_get (itemStore st) (''lastSynced/'' @ uuid item)))) m)) = Inr enc \<and>
           os_get (itemStore st1) ''index'' = Some (Encrypted enc)))"
proof -
  obtain r0 st0 where g: "itemIndex_get E st = (r0, st0)" by (cases "itemIndex_get E st")
  from itemIndex_get_frame [OF g]
  have f0: "sameButIndex st st0" and i0: "itemStore st0 = itemStore st" by simp_all
  from f0 have k0: "keyAgent st0 = keyAgent st" by (simp add: sameButIndex_def)
  show ?thesis
  proof (cases r0)
    case (Inl e)
    with u g have "r = Inl e" "st1 = st0" by (simp_all add: updateIndex_single_unfold)
    with f0 show ?thesis by simp
  next
    case (Inr m)
    note rm = this
    show ?thesis
    proof (cases "overviewFromItem item")
      case (Inl e)
      with u g rm have "r = Inl e" "st1 = st0\<lparr>itemIndex := Some m\<rparr>"
        by (simp_all add: updateIndex_single_unfold)
      with f0 show ?thesis by (simp add: sameButIndex_def)
    next
      case (Inr ov)
      let ?m = "AList.update (uuid item)
          (indexEntry ov (lastSyncTime (os_get (itemStore st) (''lastSynced/'' @ uuid item)))) m"
      let ?st = "st0\<lparr>itemIndex := Some ?m\<rparr>"
      from u g rm Inr i0 have s: "itemIndex_set E ?st ?m = (r, st1)"
        by (simp add: updateIndex_single_unfold)
      note fr = itemIndex_set_frame [OF s]
      from f0 have f1: "sameButIndex st ?st" by (simp add: sameButIndex_def)
      from fr f1 have a: "sameButIndex st st1" by (blast intro: sameButIndex_trans)
      have b: "\<exists>m ov key enc.
           fst (itemIndex_get E st) = Inr m \<and> overviewFromItem item = Inr ov \<and>
           itemIndex st1 = Some (AList.update (uuid item)
              (indexEntry ov (lastSyncTime (os_get (itemStore st) (''lastSynced/'' @ uuid item)))) m) \<and>
           overviewKey st = Inr key \<and>
           Store_encrypt E st key (stringifyIndex E (AList.update (uuid item)
              (indexEntry ov (lastSyncTime (os_get (itemStore st) (''lastSynced/'' @ uuid item)))) m)) = Inr enc \<and>
           os_get (itemStore st1) ''index'' = Some (Encrypted enc)" if "r = Inr ()"
      proof -
        have k1: "keyAgent ?st = keyAgent st" using k0 by simp
        from fr that obtain key enc where
          x: "itemIndex st1 = Some ?m" "overviewKey ?st = Inr key"
          "Store_encrypt E ?st key (stringifyIndex E ?m) = Inr enc"
          "os_get (itemStore st1) ''index'' = Some (Encrypted enc)" by blast
        from x(2) have y: "overviewKey st = Inr key"
          by (simp only: overviewKey_frame [OF k1])
        from x(3) have z: "Store_encrypt E st key (stringifyIndex E ?m) = Inr enc"
          by (simp only: Store_encrypt_frame [OF k1])
        from g rm have w: "fst (itemIndex_get E st) = Inr m" by simp
        from w Inr x(1) y z x(4) show ?thesis by blast
      qed
      from a b show ?thesis by blast
    qed
  qed
qed

lemma saveItem_unfold:
  "saveItem E now st item0 source =
     (case stampItem now item0 source of
        Inl e \<Rightarrow> (Inl e, st, item0)
      | Inr item1 \<Rightarrow>
          (case keyForItem st item1 of
             Inl e \<Rightarrow> (Inl e, st, item1)
           | Inr key \<Rightarrow>
               (case Item_getContent E st item1 of
                  Inl e \<Rightarrow> (Inl e, st, item1)
                | Inr c \<Rightarrow>
                    (case overviewFromItem (linkedItem E item1 c) of
                       Inl e \<Rightarrow> (Inl e, st, linkedItem E item1 c)
                     | Inr overview \<Rightarrow>
                         (case Store_encrypt E st key
                                 (stringifyRevision E
                                    \<lparr>rev_parentRevision = parentRevision (linkedItem E item1 c),
                                     rev_overview = overview, rev_content = c\<rparr>) of
                            Inl e \<Rightarrow> (Inl e, st, linkedItem E item1 c)
                          | Inr revisionData \<Rightarrow>
                              commitRevision E st (linkedItem E item1 c) revisionData)))))"
  by (simp add: saveItem_def linkedItem_def Let_def split: sum.splits)

lemma linkedItem_fields:
  "parentRevision (linkedItem E item1 c) = revision item1"
  "revision (linkedItem E item1 c) =
     Some (generateRevisionId E ((linkedItem E item1 c)\<lparr>revision := revision item1\<rparr>) c)"
  "createdAt (linkedItem E item1 c) = createdAt item1"
  "updatedAt (linkedItem E item1 c) = updatedAt item1"
  "uuid (linkedItem E item1 c) = uuid item1"
  by (simp_all add: linkedItem_def updateOverviewFromContent_def Let_def)

lemma commitRevision_facts:
  assumes c: "commitRevision E st item revisionData = (r, st1, item1)"
  shows "item1 = item"
    and "keyAgent st1 = keyAgent st"
    and "keyStore st1 = keyStore st"
    and "r = Inr () \<longleftrightarrow>
           fst (indexUpdateQueue_push E st item) = Inr () \<and>
           fst (os_set (itemStore st) (revisionKey (revision item)) (Encrypted revisionData))
             = Inr ()"
    and "r = Inr () \<Longrightarrow> onItemUpdated st1 = onItemUpdated st @ [item]"
    and "r \<noteq> Inr () \<Longrightarrow> onItemUpdated st1 = onItemUpdated st"
    and "r = Inr () \<Longrightarrow>
           os_get (itemStore st1) (revisionKey (revision item)) = Some (Encrypted revisionData)"
    and "r = Inr () \<Longrightarrow>
           \<exists>m ov key enc.
             fst (itemIndex_get E st) = Inr m \<and> overviewFromItem item = Inr ov \<and>
             itemIndex st1 = Some (AList.update (uuid item)
               (indexEntry ov (lastSyncTime (os_get (itemStore st) (''lastSynced/'' @ uuid item))))
               m) \<and>
             overviewKey st = Inr key \<and>
             Store_encrypt E st key (stringifyIndex E (AList.update (uuid item)
               (indexEntry ov (lastSyncTime (os_get (itemStore st) (''lastSynced/'' @ uuid item))))
               m)) = Inr enc \<and>
             os_get (itemStore st1) ''index'' = Some (Encrypted enc)"
proof -
  obtain iu sta where p: "indexUpdateQueue_push E st item = (iu, sta)"
    by (cases "indexUpdateQueue_push E st item")
  obtain rs items where w:
    "os_set (itemStore sta) (revisionKey (revision item)) (Encrypted revisionData) = (rs, items)"
    by (cases "os_set (itemStore sta) (revisionKey (revision item)) (Encrypted revisionData)")
  from p have u: "updateIndex E st [item] = (iu, sta)" by (simp add: indexUpdateQueue_push_def)
  note ui = updateIndex_single [OF u]
  then have sb: "sameButIndex st sta" by simp
  note ws = os_get_set [OF w]
  from sb have fl: "failing (itemStore sta) = failing (itemStore st)"
    by (simp add: sameButIndex_def)
  have rsok: "rs = Inr () \<longleftrightarrow>
      fst (os_set (itemStore st) (revisionKey (revision item)) (Encrypted revisionData)) = Inr ()"
    using ws fl by (simp add: os_set_def)
  from c p w have res: "(r, st1, item1) =
      (case rs of Inl e \<Rightarrow> (Inl e, sta\<lparr>itemStore := items\<rparr>, item)
       | Inr u \<Rightarrow> (case iu of Inl e \<Rightarrow> (Inl e, sta\<lparr>itemStore := items\<rparr>, item)
           | Inr u \<Rightarrow> (Inr (), sta\<lparr>itemStore := items,
                 onItemUpdated := onItemUpdated sta @ [item]\<rparr>, item)))"
    by (auto simp add: commitRevision_def Let_def split: sum.splits)
  show "item1 = item" using res by (auto split: sum.splits)
  show "keyAgent st1 = keyAgent st" using res sb
    by (auto split: sum.splits simp: sameButIndex_def)
  show "keyStore st1 = keyStore st" using res sb
    by (auto split: sum.splits simp: sameButIndex_def)
  show "r = Inr () \<longleftrightarrow>
           fst (indexUpdateQueue_push E st item) = Inr () \<and>
           fst (os_set (itemStore st) (revisionKey (revision item)) (Encrypted revisionData))
             = Inr ()"
    using res p rsok by (auto split: sum.splits)
  show "onItemUpdated st1 = onItemUpdated st @ [item]" if "r = Inr ()"
    using res that sb by (auto split: sum.splits simp: sameButIndex_def)
  show "onItemUpdated st1 = onItemUpdated st" if "r \<noteq> Inr ()"
    using res that sb by (auto split: sum.splits simp: sameButIndex_def)
  show "os_get (itemStore st1) (revisionKey (revision item)) = Some (Encrypted revisionData)"
    if "r = Inr ()"
    using res that ws by (auto split: sum.splits)
  show "\<exists>m ov key enc.
             fst (itemIndex_get E st) = Inr m \<and> overviewFromItem item = Inr ov \<and>
             itemIndex st1 = Some (AList.update (uuid item)
               (indexEntry ov (lastSyncTime (os_get (itemStore st) (''lastSynced/'' @ uuid item))))
               m) \<and>
             overviewKey st = Inr key \<and>
             Store_encrypt E st key (stringifyIndex E (AList.update (uuid item)
               (indexEntry ov (lastSyncTime (os_get (itemStore st) (''lastSynced/'' @ uuid item))))
               m)) = Inr enc \<and>
             os_get (itemStore st1) ''index'' = Some (Encrypted enc)"
    if "r = Inr ()"
  proof -
    from res that have iuok: "iu = Inr ()" and rsk: "rs = Inr ()"
      and st1: "st1 = sta\<lparr>itemStore := items, onItemUpdated := onItemUpdated sta @ [item]\<rparr>"
      by (auto split: sum.splits)
    from ws revisionKey_not_index [of "revision item"]
    have "os_get items ''index'' = os_get (itemStore sta) ''index''" by metis
    with ui iuok st1 show ?thesis by auto
  qed
qed

lemma saveItem_success:
  assumes s: "saveItem E now st item source = (Inr (), st1, item')"
  obtains item1 key c ov blob where
    "stampItem now item source = Inr item1"
    "overviewKey st = Inr key"
    "Item_getContent E st item1 = Inr c"
    "item' = linkedItem E item1 c"
    "overviewFromItem item' = Inr ov"
    "Store_encrypt E st key
       (stringifyRevision E
          \<lparr>rev_parentRevision = parentRevision item', rev_overview = ov, rev_content = c\<rparr>)
     = Inr blob"
    "commitRevision E st item' blob = (Inr (), st1, item')"
proof -
  from s obtain item1 where a: "stampItem now item source = Inr item1"
    by (cases "stampItem now item source") (simp_all add: saveItem_unfold)
  from s a obtain key where b: "overviewKey st = Inr key"
    by (cases "overviewKey st") (simp_all add: saveItem_unfold keyForItem_def)
  from s a b obtain c where c: "Item_getContent E st item1 = Inr c"
    by (cases "Item_getContent E st item1") (simp_all add: saveItem_unfold keyForItem_def)
  from s a b c obtain ov where d: "overviewFromItem (linkedItem E item1 c) = Inr ov"
    by (cases "overviewFromItem (linkedItem E item1 c)")
      (simp_all add: saveItem_unfold keyForItem_def)
  from s a b c d obtain blob where e: "Store_encrypt E st key
       (stringifyRevision E
          \<lparr>rev_parentRevision = parentRevision (linkedItem E item1 c), rev_overview = ov,
           rev_content = c\<rparr>) = Inr blob"
    by (cases "Store_encrypt E st key
       (stringifyRevision E
          \<lparr>rev_parentRevision = parentRevision (linkedItem E item1 c), rev_overview = ov,
           rev_content = c\<rparr>)")
      (simp_all add: saveItem_unfold keyForItem_def)
  from s a b c d e have f: "commitRevision E st (linkedItem E item1 c) blob = (Inr (), st1, item')"
    by (simp add: saveItem_unfold keyForItem_def)
  from commitRevision_facts(1) [OF f] have g: "item' = linkedItem E item1 c" .
  from a b c d e f g that show thesis by simp
qed

lemma saveItem_outcome:
  assumes s: "saveItem E now st item source = (r, st1, item')"
  shows "r \<noteq> Inr () \<Longrightarrow> onItemUpdated st1 = onItemUpdated st"
    and "stampItem now item source = Inr item1 \<Longrightarrow>
           createdAt item' = createdAt item1 \<and> updatedAt item' = updatedAt item1"
    and "stampItem now item source = Inl e \<Longrightarrow> r = Inl e \<and> st1 = st \<and> item' = item"
proof -
  show "r = Inl e \<and> st1 = st \<and> item' = item" if "stampItem now item source = Inl e"
    using s that by (simp add: saveItem_unfold)
  have both: "(r \<noteq> Inr () \<longrightarrow> onItemUpdated st1 = onItemUpdated st) \<and>
      (\<forall>item1. stampItem now item source = Inr item1 \<longrightarrow>
           createdAt item' = createdAt item1 \<and> updatedAt item' = updatedAt item1)"
  proof (cases "stampItem now item source")
    case (Inl e)
    with s show ?thesis by (simp add: saveItem_unfold)
  next
    case a: (Inr i1)
    show ?thesis
    proof (cases "overviewKey st")
      case (Inl e)
      with s a show ?thesis by (simp add: saveItem_unfold keyForItem_def)
    next
      case b: (Inr key)
      show ?thesis
      proof (cases "Item_getContent E st i1")
        case (Inl e)
        with s a b show ?thesis by (simp add: saveItem_unfold keyForItem_def)
      next
        case c: (Inr c)
        show ?thesis
        proof (cases "overviewFromItem (linkedItem E i1 c)")
          case (Inl e)
          with s a b c show ?thesis
            by (auto simp: saveItem_unfold keyForItem_def linkedItem_fields)
        next
          case d: (Inr ov)
          show ?thesis
          proof (cases "Store_encrypt E st key
               (stringifyRevision E
                  \<lparr>rev_parentRevision = parentRevision (linkedItem E i1 c), rev_overview = ov,
                   rev_content = c\<rparr>)")
            case (Inl e)
            with s a b c d show ?thesis
              by (auto simp: saveItem_unfold keyForItem_def linkedItem_fields)
          next
            case (Inr blob)
            with s a b c d
            have f: "commitRevision E st (linkedItem E i1 c) blob = (r, st1, item')"
              by (simp add: saveItem_unfold keyForItem_def)
            from commitRevision_facts(1) [OF f] commitRevision_facts(6) [OF f] a
            show ?thesis by (simp add: linkedItem_fields)
          qed
        qed
      qed
    qed
  qed
  from both show "r \<noteq> Inr () \<Longrightarrow> onItemUpdated st1 = onItemUpdated st" by blast
  from both show "stampItem now item source = Inr item1 \<Longrightarrow>
           createdAt item' = createdAt item1 \<and> updatedAt item' = updatedAt item1" by blast
qed

text \<open>
  C7. Timestamps in \<open>Store.saveItem\<close>. If the source is not \<open>Sync\<close>, the item leaves
  the call with \<open>updatedAt\<close> set to the current time and \<open>createdAt\<close> set to it when
  it was absent (and kept otherwise). If the source is \<open>Sync\<close> and \<open>createdAt\<close> or
  \<open>updatedAt\<close> is absent, the operation fails with \<open>AssertionViolation\<close> and changes
  neither the store nor the item; if both are present, the call leaves them unchanged.
\<close>

theorem saveItem_timestamps:
  "(source \<noteq> Sync \<and> saveItem E now st item source = (r, st', item') \<longrightarrow>
      updatedAt item' = Some now \<and>
      createdAt item' = Some (case createdAt item of None \<Rightarrow> now | Some t \<Rightarrow> t)) \<and>
   (createdAt item = None \<or> updatedAt item = None \<longrightarrow>
      saveItem E now st item Sync = (Inl AssertionViolation, st, item)) \<and>
   (createdAt item \<noteq> None \<and> updatedAt item \<noteq> None \<and>
      saveItem E now st item Sync = (r', st'', item'') \<longrightarrow>
      createdAt item'' = createdAt item \<and> updatedAt item'' = updatedAt item)"
proof (intro conjI impI)
  assume h: "source \<noteq> Sync \<and> saveItem E now st item source = (r, st', item')"
  then have "stampItem now item source = Inr (updateTimestamps now item)"
    by (simp add: stampItem_def)
  from saveItem_outcome(2) [OF conjunct2 [OF h] this]
  show "updatedAt item' = Some now"
    and "createdAt item' = Some (case createdAt item of None \<Rightarrow> now | Some t \<Rightarrow> t)"
    by (simp_all add: updateTimestamps_def split: option.splits)
next
  assume "createdAt item = None \<or> updatedAt item = None"
  then have "stampItem now item Sync = Inl AssertionViolation"
    by (auto simp: stampItem_def)
  then show "saveItem E now st item Sync = (Inl AssertionViolation, st, item)"
    by (simp add: saveItem_unfold)
next
  assume h: "createdAt item \<noteq> None \<and> updatedAt item \<noteq> None \<and>
      saveItem E now st item Sync = (r', st'', item'')"
  then have "stampItem now item Sync = Inr item" by (simp add: stampItem_def)
  from saveItem_outcome(2) [OF _ this] h
  show "createdAt item'' = createdAt item" and "updatedAt item'' = updatedAt item"
    by blast+
qed

theorem saveItem_timestamps_witness:
  "Local \<noteq> Sync \<and>
   updatedAt (snd (snd (saveItem toyEnv 5 unlockedStore bankItem Local))) = Some 5 \<and>
   createdAt (snd (snd (saveItem toyEnv 5 unlockedStore bankItem Local))) = Some 5 \<and>
   createdAt bankItem = None \<and>
   saveItem toyEnv 5 unlockedStore bankItem Sync =
     (Inl AssertionViolation, unlockedStore, bankItem) \<and>
   createdAt syncedItem \<noteq> None \<and> updatedAt syncedItem \<noteq> None \<and>
   fst (saveItem toyEnv 5 unlockedStore syncedItem Sync) = Inr () \<and>
   createdAt (snd (snd (saveItem toyEnv 5 unlockedStore syncedItem Sync))) = Some 1 \<and>
   updatedAt (snd (snd (saveItem toyEnv 5 unlockedStore syncedItem Sync))) = Some 2"
proof -
  note toy_defs = toyEnv_def toyCrypto_def unlockedStore_def bankItem_def syncedItem_def
    emptyObjectStore_def
  note save_defs = saveItem_def stampItem_def updateTimestamps_def keyForItem_def
    overviewKey_def listKeys_def isArrayIndex_def isDigit_def Let_def Item_getContent_def updateOverviewFromContent_def
    overviewFromItem_def Store_encrypt_def agent_encrypt_def commitRevision_def
    indexUpdateQueue_push_def updateIndex_def itemIndex_get_def readItemIndex_def os_get_def
    os_set_def getLastSyncEntries_def lastSyncTime_def itemIndex_set_def writeItemIndex_def
    revisionKey_def indexEntry_def Let_def
  let ?X = "saveItem toyEnv 5 unlockedStore bankItem Local"
  let ?Y = "saveItem toyEnv 5 unlockedStore syncedItem Sync"
  have n: "Local \<noteq> Sync" by simp
  have c: "createdAt bankItem = None" by (simp add: bankItem_def)
  have s: "createdAt syncedItem \<noteq> None \<and> updatedAt syncedItem \<noteq> None"
    "createdAt syncedItem = Some 1" "updatedAt syncedItem = Some 2"
    by (simp_all add: syncedItem_def)
  have e: "fst ?Y = Inr ()" by (simp add: save_defs toy_defs)
  note t1 = saveItem_timestamps [where source = Local and E = toyEnv and now = 5
      and st = unlockedStore and item = bankItem and r = "fst ?X" and st' = "fst (snd ?X)"
      and item' = "snd (snd ?X)"]
  note t2 = saveItem_timestamps [where E = toyEnv and now = 5 and st = unlockedStore
      and item = syncedItem and r' = "fst ?Y" and st'' = "fst (snd ?Y)"
      and item'' = "snd (snd ?Y)"]
  from t1 n c triple [of ?X] have a:
    "updatedAt (snd (snd ?X)) = Some 5" "createdAt (snd (snd ?X)) = Some 5"
    "saveItem toyEnv 5 unlockedStore bankItem Sync =
       (Inl AssertionViolation, unlockedStore, bankItem)"
    by simp_all
  from t2 s triple [of ?Y] have b:
    "createdAt (snd (snd ?Y)) = Some 1" "updatedAt (snd (snd ?Y)) = Some 2"
    by simp_all
  from n c s a b e show ?thesis by simp
qed

lemma stampItem_revision:
  "stampItem now item source = Inr item1 \<Longrightarrow>
     revision item1 = revision item \<and> uuid item1 = uuid item"
  by (auto simp: stampItem_def updateTimestamps_def split: if_splits)

lemma overviewFromItem_parent:
  "overviewFromItem item = Inr ov \<Longrightarrow>
     ov_parentRevision ov = parentRevision item \<and> ov_revision ov = revision item"
  by (auto simp: overviewFromItem_def split: option.splits)

lemma saveItem_parent:
  assumes s: "saveItem E now st item source = (Inr (), st1, item')"
  shows "parentRevision item' = revision item"
  using s
proof (rule saveItem_success)
  fix item1 key c ov blob
  assume "stampItem now item source = Inr item1" "item' = linkedItem E item1 c"
  then show ?thesis by (simp add: linkedItem_fields stampItem_revision)
qed

lemma saveSeq_chained: "chained (revision item) (snd (saveSeq E st item steps))"
proof (induction steps arbitrary: st item)
  case Nil
  then show ?case by simp
next
  case (Cons step steps)
  obtain now source c where st: "step = (now, source, c)" by (cases step)
  obtain r st1 item1 where s: "saveItem E now st (setContent item c) source = (r, st1, item1)"
    by (cases "saveItem E now st (setContent item c) source")
  show ?case
  proof (cases r)
    case (Inl e)
    with st s show ?thesis by simp
  next
    case (Inr u)
    with s have s': "saveItem E now st (setContent item c) source = (Inr (), st1, item1)"
      by simp
    from saveItem_parent [OF s'] have "parentRevision item1 = revision item"
      by (simp add: setContent_def)
    with st s' Cons.IH [of item1 st1] show ?thesis
      by (auto simp: Let_def split: prod.splits)
  qed
qed

text \<open>
  C4. The revision chain. A successful \<open>Store.saveItem\<close> leaves the item with
  \<open>parentRevision\<close> equal to the revision the item had before the save (none at the
  first save); the new revision id is generated from the item that already carries this
  \<open>parentRevision\<close>; and the revision stored under \<open>revisions/<new id>\<close> is the
  encryption of an \<open>ItemRevision\<close> whose \<open>parentRevision\<close> (and whose overview's) is
  that previous revision. Hence the items saved by sequential saves of one item are
  chained: each one's \<open>parentRevision\<close> is the revision of the one before.
\<close>

theorem saveItem_links_parent_revision:
  "(saveItem E now st item source = (Inr (), st', item') \<longrightarrow>
      parentRevision item' = revision item \<and>
      (\<exists>key c ov blob.
         revision item' = Some (generateRevisionId E (item'\<lparr>revision := revision item\<rparr>) c) \<and>
         overviewFromItem item' = Inr ov \<and> ov_parentRevision ov = revision item \<and>
         overviewKey st = Inr key \<and>
         Store_encrypt E st key
           (stringifyRevision E
              \<lparr>rev_parentRevision = revision item, rev_overview = ov, rev_content = c\<rparr>)
           = Inr blob \<and>
         os_get (itemStore st') (revisionKey (revision item')) = Some (Encrypted blob))) \<and>
   chained (revision item) (snd (saveSeq E st item steps))"
proof (intro conjI impI)
  assume s: "saveItem E now st item source = (Inr (), st', item')"
  from saveItem_parent [OF s] show p: "parentRevision item' = revision item" .
  from s show "\<exists>key c ov blob.
         revision item' = Some (generateRevisionId E (item'\<lparr>revision := revision item\<rparr>) c) \<and>
         overviewFromItem item' = Inr ov \<and> ov_parentRevision ov = revision item \<and>
         overviewKey st = Inr key \<and>
         Store_encrypt E st key
           (stringifyRevision E
              \<lparr>rev_parentRevision = revision item, rev_overview = ov, rev_content = c\<rparr>)
           = Inr blob \<and>
         os_get (itemStore st') (revisionKey (revision item')) = Some (Encrypted blob)"
  proof (rule saveItem_success)
    fix i1 key c ov blob
    assume a: "stampItem now item source = Inr i1" "overviewKey st = Inr key"
      "item' = linkedItem E i1 c" "overviewFromItem item' = Inr ov"
      "Store_encrypt E st key
         (stringifyRevision E
            \<lparr>rev_parentRevision = parentRevision item', rev_overview = ov, rev_content = c\<rparr>)
       = Inr blob"
      "commitRevision E st item' blob = (Inr (), st', item')"
    from a(1,3) have "revision item' =
        Some (generateRevisionId E (item'\<lparr>revision := revision item\<rparr>) c)"
      using linkedItem_fields(2) [of E i1 c] by (simp add: stampItem_revision)
    moreover from overviewFromItem_parent [OF a(4)] p
    have "ov_parentRevision ov = revision item" by simp
    moreover from commitRevision_facts(7) [OF a(6)]
    have "os_get (itemStore st') (revisionKey (revision item')) = Some (Encrypted blob)"
      by simp
    ultimately show ?thesis using a p by auto
  qed
next
  show "chained (revision item) (snd (saveSeq E st item steps))" by (rule saveSeq_chained)
qed

theorem saveItem_links_parent_revision_witness:
  "fst (saveItem toyEnv 5 unlockedStore bankItem Local) = Inr () \<and>
   parentRevision (snd (snd (saveItem toyEnv 5 unlockedStore bankItem Local))) =
     revision bankItem \<and>
   map revision (snd (saveSeq toyEnv unlockedStore bankItem
       [(5, Local, ''c1''), (6, Sync, ''c2'')])) =
     [Some ''r-Bank-c1-'', Some ''r-Bank-c2-r-Bank-c1-''] \<and>
   chained (revision bankItem) (snd (saveSeq toyEnv unlockedStore bankItem
       [(5, Local, ''c1''), (6, Sync, ''c2'')]))"
proof -
  note toy_defs = toyEnv_def toyCrypto_def unlockedStore_def bankItem_def
    emptyObjectStore_def
  note save_defs = saveItem_def stampItem_def updateTimestamps_def keyForItem_def
    overviewKey_def listKeys_def isArrayIndex_def isDigit_def Let_def Item_getContent_def updateOverviewFromContent_def
    overviewFromItem_def Store_encrypt_def agent_encrypt_def commitRevision_def
    indexUpdateQueue_push_def updateIndex_def itemIndex_get_def readItemIndex_def os_get_def
    os_set_def getLastSyncEntries_def lastSyncTime_def itemIndex_set_def writeItemIndex_def
    revisionKey_def indexEntry_def Let_def
  let ?X = "saveItem toyEnv 5 unlockedStore bankItem Local"
  have e1: "fst ?X = Inr ()" by (simp add: save_defs toy_defs)
  have e2: "map revision (snd (saveSeq toyEnv unlockedStore bankItem
       [(5, Local, ''c1''), (6, Sync, ''c2'')])) =
     [Some ''r-Bank-c1-'', Some ''r-Bank-c2-r-Bank-c1-'']"
    by (simp add: save_defs toy_defs setContent_def)
  note t = saveItem_links_parent_revision [where E = toyEnv and now = 5
      and st = unlockedStore and item = bankItem and source = Local
      and st' = "fst (snd ?X)" and item' = "snd (snd ?X)"
      and steps = "[(5, Local, ''c1''), (6, Sync, ''c2'')]"]
  from e1 triple [of ?X] have x: "?X = (Inr (), fst (snd ?X), snd (snd ?X))" by simp
  from t x have a: "parentRevision (snd (snd ?X)) = revision bankItem" by blast
  from t have b: "chained (revision bankItem) (snd (saveSeq toyEnv unlockedStore bankItem
       [(5, Local, ''c1''), (6, Sync, ''c2'')]))" by blast
  from e1 e2 a b show ?thesis by simp
qed

text \<open>
  C5. \<open>Store.saveItem\<close> resolves only after both writes. When it succeeds, the
  encrypted revision is stored under \<open>revisions/<new revision id>\<close>, the cached index
  holds the item's entry and its encryption is stored under \<open>index\<close>, and the item has
  been published on \<open>onItemUpdated\<close>. When it fails, nothing is published. Its last
  stage succeeds exactly when both the index update and the write of the revision
  succeed, and publishes nothing otherwise.
\<close>

theorem saveItem_resolves_after_both_writes:
  "(saveItem E now st item source = (Inr (), st', item') \<longrightarrow>
      (\<exists>blob m ov t key enc.
         os_get (itemStore st') (revisionKey (revision item')) = Some (Encrypted blob) \<and>
         itemIndex st' = Some m \<and> overviewFromItem item' = Inr ov \<and>
         map_of m (uuid item') = Some (indexEntry ov t) \<and>
         overviewKey st = Inr key \<and>
         Store_encrypt E st key (stringifyIndex E m) = Inr enc \<and>
         os_get (itemStore st') ''index'' = Some (Encrypted enc)) \<and>
      onItemUpdated st' = onItemUpdated st @ [item']) \<and>
   (saveItem E now st item source = (Inl e, st'', item'') \<longrightarrow>
      onItemUpdated st'' = onItemUpdated st) \<and>
   (commitRevision E st item revisionData = (r, st''', item''') \<longrightarrow>
      (r = Inr () \<longleftrightarrow>
         fst (indexUpdateQueue_push E st item) = Inr () \<and>
         fst (os_set (itemStore st) (revisionKey (revision item)) (Encrypted revisionData))
           = Inr ()) \<and>
      (r \<noteq> Inr () \<longrightarrow> onItemUpdated st''' = onItemUpdated st))"
proof (intro conjI impI)
  assume s: "saveItem E now st item source = (Inr (), st', item')"
  from s show "\<exists>blob m ov t key enc.
         os_get (itemStore st') (revisionKey (revision item')) = Some (Encrypted blob) \<and>
         itemIndex st' = Some m \<and> overviewFromItem item' = Inr ov \<and>
         map_of m (uuid item') = Some (indexEntry ov t) \<and>
         overviewKey st = Inr key \<and>
         Store_encrypt E st key (stringifyIndex E m) = Inr enc \<and>
         os_get (itemStore st') ''index'' = Some (Encrypted enc)"
  proof (rule saveItem_success)
    fix i1 key c ov blob
    assume a: "commitRevision E st item' blob = (Inr (), st', item')"
    from commitRevision_facts(7) [OF a]
    have w: "os_get (itemStore st') (revisionKey (revision item')) = Some (Encrypted blob)"
      by simp
    from commitRevision_facts(8) [OF a] obtain m ov' key' enc where
      i: "overviewFromItem item' = Inr ov'"
        "itemIndex st' = Some (AList.update (uuid item')
           (indexEntry ov' (lastSyncTime (os_get (itemStore st) (''lastSynced/'' @ uuid item'))))
           m)"
        "overviewKey st = Inr key'"
        "Store_encrypt E st key' (stringifyIndex E (AList.update (uuid item')
           (indexEntry ov' (lastSyncTime (os_get (itemStore st) (''lastSynced/'' @ uuid item'))))
           m)) = Inr enc"
        "os_get (itemStore st') ''index'' = Some (Encrypted enc)"
      by auto
    have "map_of (AList.update (uuid item')
           (indexEntry ov' (lastSyncTime (os_get (itemStore st) (''lastSynced/'' @ uuid item'))))
           m) (uuid item') =
        Some (indexEntry ov' (lastSyncTime (os_get (itemStore st) (''lastSynced/'' @ uuid item'))))"
      by (simp add: update_conv')
    with w i show ?thesis by blast
  qed
  from s show "onItemUpdated st' = onItemUpdated st @ [item']"
  proof (rule saveItem_success)
    fix blob
    assume a: "commitRevision E st item' blob = (Inr (), st', item')"
    from commitRevision_facts(5) [OF a] show ?thesis by simp
  qed
next
  assume "saveItem E now st item source = (Inl e, st'', item'')"
  from saveItem_outcome(1) [OF this] show "onItemUpdated st'' = onItemUpdated st" by simp
next
  assume c: "commitRevision E st item revisionData = (r, st''', item''')"
  from commitRevision_facts(4) [OF c]
  show "r = Inr () \<longleftrightarrow>
         fst (indexUpdateQueue_push E st item) = Inr () \<and>
         fst (os_set (itemStore st) (revisionKey (revision item)) (Encrypted revisionData))
           = Inr ()" .
  show "onItemUpdated st''' = onItemUpdated st" if "r \<noteq> Inr ()"
    using commitRevision_facts(6) [OF c that] .
qed

theorem saveItem_resolves_after_both_writes_witness:
  "fst (saveItem toyEnv 5 unlockedStore bankItem Local) = Inr () \<and>
   os_get (itemStore (fst (snd (saveItem toyEnv 5 unlockedStore bankItem Local))))
     ''revisions/r-Bank-c1-'' = Some (Encrypted ''keyrev:Bank:c1'') \<and>
   os_get (itemStore (fst (snd (saveItem toyEnv 5 unlockedStore bankItem Local))))
     ''index'' = Some (Encrypted ''keyindex:u1'') \<and>
   onItemUpdated (fst (snd (saveItem toyEnv 5 unlockedStore bankItem Local))) =
     onItemUpdated unlockedStore @ [snd (snd (saveItem toyEnv 5 unlockedStore bankItem Local))] \<and>
   fst (saveItem toyEnv 5 brokenStore bankItem Local) =
     Inl (StorageError ''revisions/r-Bank-c1-'') \<and>
   onItemUpdated (fst (snd (saveItem toyEnv 5 brokenStore bankItem Local))) =
     onItemUpdated brokenStore \<and>
   fst (os_set (itemStore brokenStore) (revisionKey (revision syncedItem)) (Encrypted ''x''))
     \<noteq> Inr () \<and>
   fst (commitRevision toyEnv brokenStore syncedItem ''x'') \<noteq> Inr () \<and>
   onItemUpdated (fst (snd (commitRevision toyEnv brokenStore syncedItem ''x''))) =
     onItemUpdated brokenStore"
proof -
  note toy_defs = toyEnv_def toyCrypto_def unlockedStore_def bankItem_def
    emptyObjectStore_def brokenStore_def
  note save_defs = saveItem_def stampItem_def updateTimestamps_def keyForItem_def
    overviewKey_def listKeys_def isArrayIndex_def isDigit_def Let_def Item_getContent_def updateOverviewFromContent_def
    overviewFromItem_def Store_encrypt_def agent_encrypt_def commitRevision_def
    indexUpdateQueue_push_def updateIndex_def itemIndex_get_def readItemIndex_def os_get_def
    os_set_def getLastSyncEntries_def lastSyncTime_def itemIndex_set_def writeItemIndex_def
    revisionKey_def indexEntry_def Let_def
  let ?X = "saveItem toyEnv 5 unlockedStore bankItem Local"
  let ?B = "saveItem toyEnv 5 brokenStore bankItem Local"
  let ?C = "commitRevision toyEnv brokenStore syncedItem ''x''"
  have e1: "fst ?X = Inr ()" by (simp add: save_defs toy_defs)
  have e2: "os_get (itemStore (fst (snd ?X))) ''revisions/r-Bank-c1-'' =
      Some (Encrypted ''keyrev:Bank:c1'')" by (simp add: save_defs toy_defs)
  have e3: "os_get (itemStore (fst (snd ?X))) ''index'' = Some (Encrypted ''keyindex:u1'')"
    by (simp add: save_defs toy_defs)
  have e4: "fst ?B = Inl (StorageError ''revisions/r-Bank-c1-'')"
    by (simp add: save_defs toy_defs)
  have e5: "fst (os_set (itemStore brokenStore) (revisionKey (revision syncedItem))
      (Encrypted ''x'')) \<noteq> Inr ()"
    by (simp add: os_set_def brokenStore_def revisionKey_def)
  note t1 = saveItem_resolves_after_both_writes [where E = toyEnv and now = 5
      and st = unlockedStore and item = bankItem and source = Local
      and st' = "fst (snd ?X)" and item' = "snd (snd ?X)"]
  note t2 = saveItem_resolves_after_both_writes [where E = toyEnv and now = 5
      and st = brokenStore and item = bankItem and source = Local
      and e = "StorageError ''revisions/r-Bank-c1-''"
      and st'' = "fst (snd ?B)" and item'' = "snd (snd ?B)"
      and revisionData = "''x''" and r = "fst ?C"
      and st''' = "fst (snd ?C)" and item''' = "snd (snd ?C)"]
  note t3 = saveItem_resolves_after_both_writes [where E = toyEnv
      and st = brokenStore and item = syncedItem
      and revisionData = "''x''" and r = "fst ?C"
      and st''' = "fst (snd ?C)" and item''' = "snd (snd ?C)"]
  from e1 triple [of ?X] have x: "?X = (Inr (), fst (snd ?X), snd (snd ?X))" by simp
  from e4 triple [of ?B] have y:
    "?B = (Inl (StorageError ''revisions/r-Bank-c1-''), fst (snd ?B), snd (snd ?B))" by simp
  from t1 x have a: "onItemUpdated (fst (snd ?X)) = onItemUpdated unlockedStore @ [snd (snd ?X)]"
    by blast
  from t2 y have b: "onItemUpdated (fst (snd ?B)) = onItemUpdated brokenStore" by blast
  from t3 triple [of ?C] e5 have c: "fst ?C \<noteq> Inr ()" by metis
  from t3 triple [of ?C] c have d: "onItemUpdated (fst (snd ?C)) = onItemUpdated brokenStore"
    by metis
  from e1 e2 e3 e4 e5 a b c d show ?thesis by simp
qed

lemma encStr_eq [simp]: "encStr a = encStr b \<longleftrightarrow> a = b"
proof -
  have "inj (of_char :: char \<Rightarrow> nat)" by (rule injI) simp
  then show ?thesis by (simp add: encStr_def list_encode_eq inj_map_eq_map)
qed

lemma encStrs_eq [simp]: "encStrs a = encStrs b \<longleftrightarrow> a = b"
proof -
  have "inj encStr" by (rule injI) simp
  then show ?thesis by (simp add: encStrs_def list_encode_eq inj_map_eq_map)
qed

lemma encOpt_eq:
  "(\<And>a b. f a = f b \<longleftrightarrow> a = b) \<Longrightarrow> encOpt f x = encOpt f y \<longleftrightarrow> x = y"
  by (auto simp: encOpt_def split: option.splits)

lemma encOpenContents_eq [simp]: "encOpenContents a = encOpenContents b \<longleftrightarrow> a = b"
  by (cases a; cases b) (simp add: encOpenContents_def)

lemma encOverview_eq [simp]: "encOverview a = encOverview b \<longleftrightarrow> a = b"
  by (cases a; cases b)
    (auto simp: encOverview_def list_encode_eq int_encode_eq encOpt_eq split: if_splits)

lemma overviewFromItem_error: "overviewFromItem item = Inl e \<Longrightarrow> e = TypeError"
  by (auto simp: overviewFromItem_def split: option.splits)

lemma digest_eq:
  "digest item c = digest item' c' \<longleftrightarrow>
     overviewFromItem item = overviewFromItem item' \<and> c = c'"
proof -
  have "replicate n CHR ''r'' = replicate m CHR ''r'' \<longleftrightarrow> n = m" for n m
    by (metis length_replicate)
  then show ?thesis
    by (cases "overviewFromItem item"; cases "overviewFromItem item'")
      (auto simp: digest_def dest: overviewFromItem_error)
qed

lemma digestEnv_contentAddressed: "contentAddressed digestEnv"
  by (simp add: contentAddressed_def digestEnv_def digest_eq)

lemma Store_getContent_revision:
  "revision a = revision b \<Longrightarrow> Store_getContent E st a = Store_getContent E st b"
  by (simp add: Store_getContent_def keyForItem_def split: sum.splits)

lemma Item_getContent_stamp:
  assumes "stampItem now item source = Inr item1"
  shows "Item_getContent E st item1 = Item_getContent E st item"
proof -
  from assms have "revision item1 = revision item" "content item1 = content item"
    by (auto simp: stampItem_def updateTimestamps_def split: if_splits)
  then show ?thesis
    using Store_getContent_revision [of item1 item E st]
    by (simp add: Item_getContent_def split: option.splits)
qed

lemma saveItem_revision:
  assumes s: "saveItem E now st item source = (Inr (), st', item')"
  shows "\<exists>c. Item_getContent E st item = Inr c \<and>
           revision item' = Some (generateRevisionId E (item'\<lparr>revision := revision item\<rparr>) c)"
  using s
proof (rule saveItem_success)
  fix item1 key c ov blob
  assume a: "stampItem now item source = Inr item1" "Item_getContent E st item1 = Inr c"
    "item' = linkedItem E item1 c"
  from a(1,3) have "revision item' =
      Some (generateRevisionId E (item'\<lparr>revision := revision item\<rparr>) c)"
    using linkedItem_fields(2) [of E item1 c] by (simp add: stampItem_revision)
  with a Item_getContent_stamp [OF a(1)] show ?thesis by auto
qed

text \<open>
  C3. Revision ids are determined by the overview and the content. Take two successful
  saves, of any items in any stores. The new revision id of each is generated from the
  item as it is after the time stamp, the refresh of the overview and the setting of
  \<open>parentRevision\<close>, and from the content; so if these items and the contents agree, the
  ids agree. If \<open>generateRevisionId\<close> meets the specification's contract, the ids agree
  exactly when the overviews of these items agree and the contents agree: identical
  overview and content give identical ids, and a change to either gives a different id.
\<close>

theorem saveItem_revision_id_content_addressed:
  "saveItem E now st item source = (Inr (), st', item') \<and>
   saveItem E nowB stB itemB sourceB = (Inr (), stB', itemB') \<longrightarrow>
     (item'\<lparr>revision := revision item\<rparr> = itemB'\<lparr>revision := revision itemB\<rparr> \<and>
      Item_getContent E st item = Item_getContent E stB itemB \<longrightarrow>
        revision item' = revision itemB') \<and>
     (contentAddressed E \<longrightarrow>
        (revision item' = revision itemB' \<longleftrightarrow>
           overviewFromItem (item'\<lparr>revision := revision item\<rparr>) =
             overviewFromItem (itemB'\<lparr>revision := revision itemB\<rparr>) \<and>
           Item_getContent E st item = Item_getContent E stB itemB))"
proof (intro impI)
  assume h: "saveItem E now st item source = (Inr (), st', item') \<and>
   saveItem E nowB stB itemB sourceB = (Inr (), stB', itemB')"
  from saveItem_revision [OF conjunct1 [OF h]] obtain c where
    c: "Item_getContent E st item = Inr c"
      "revision item' = Some (generateRevisionId E (item'\<lparr>revision := revision item\<rparr>) c)"
    by blast
  from saveItem_revision [OF conjunct2 [OF h]] obtain c2 where
    c2: "Item_getContent E stB itemB = Inr c2"
      "revision itemB' = Some (generateRevisionId E (itemB'\<lparr>revision := revision itemB\<rparr>) c2)"
    by blast
  have a: "revision item' = revision itemB'"
    if "item'\<lparr>revision := revision item\<rparr> = itemB'\<lparr>revision := revision itemB\<rparr> \<and>
      Item_getContent E st item = Item_getContent E stB itemB"
    using that c c2 by simp
  have b: "revision item' = revision itemB' \<longleftrightarrow>
           overviewFromItem (item'\<lparr>revision := revision item\<rparr>) =
             overviewFromItem (itemB'\<lparr>revision := revision itemB\<rparr>) \<and>
           Item_getContent E st item = Item_getContent E stB itemB"
    if "contentAddressed E"
    using that c c2 by (simp add: contentAddressed_def)
  from a b show "(item'\<lparr>revision := revision item\<rparr> = itemB'\<lparr>revision := revision itemB\<rparr> \<and>
      Item_getContent E st item = Item_getContent E stB itemB \<longrightarrow>
        revision item' = revision itemB') \<and>
     (contentAddressed E \<longrightarrow>
        (revision item' = revision itemB' \<longleftrightarrow>
           overviewFromItem (item'\<lparr>revision := revision item\<rparr>) =
             overviewFromItem (itemB'\<lparr>revision := revision itemB\<rparr>) \<and>
           Item_getContent E st item = Item_getContent E stB itemB))"
    by blast
qed

theorem saveItem_revision_id_content_addressed_witness:
  "contentAddressed digestEnv \<and>
   fst (saveItem digestEnv 5 unlockedStore bankItem Local) = Inr () \<and>
   fst (saveItem digestEnv 5 cachedStore bankItem Local) = Inr () \<and>
   fst (saveItem digestEnv 5 unlockedStore (setContent bankItem ''c2'') Local) = Inr () \<and>
   revision (snd (snd (saveItem digestEnv 5 unlockedStore bankItem Local))) =
     revision (snd (snd (saveItem digestEnv 5 cachedStore bankItem Local))) \<and>
   revision (snd (snd (saveItem digestEnv 5 unlockedStore bankItem Local))) \<noteq>
     revision (snd (snd (saveItem digestEnv 5 unlockedStore (setContent bankItem ''c2'')
       Local)))"
proof -
  note toy_defs = toyEnv_def toyCrypto_def unlockedStore_def bankItem_def
    emptyObjectStore_def cachedStore_def
  note save_defs = saveItem_def stampItem_def updateTimestamps_def keyForItem_def
    overviewKey_def listKeys_def isArrayIndex_def isDigit_def Let_def Item_getContent_def updateOverviewFromContent_def
    overviewFromItem_def Store_encrypt_def agent_encrypt_def commitRevision_def
    indexUpdateQueue_push_def updateIndex_def itemIndex_get_def readItemIndex_def os_get_def
    os_set_def getLastSyncEntries_def lastSyncTime_def itemIndex_set_def writeItemIndex_def
    revisionKey_def indexEntry_def Let_def
  let ?X = "saveItem digestEnv 5 unlockedStore bankItem Local"
  let ?Y = "saveItem digestEnv 5 cachedStore bankItem Local"
  let ?Z = "saveItem digestEnv 5 unlockedStore (setContent bankItem ''c2'') Local"
  note defs = save_defs toy_defs digestEnv_def setContent_def
  have c: "contentAddressed digestEnv" by (rule digestEnv_contentAddressed)
  have e1: "fst ?X = Inr ()" by (simp add: defs)
  have e2: "fst ?Y = Inr ()" by (simp add: defs)
  have e3: "fst ?Z = Inr ()" by (simp add: defs)
  have i: "(snd (snd ?X))\<lparr>revision := revision bankItem\<rparr> =
      (snd (snd ?Y))\<lparr>revision := revision bankItem\<rparr>" by (simp add: defs)
  have g1: "Item_getContent digestEnv unlockedStore bankItem = Inr ''c1''"
    by (simp add: Item_getContent_def bankItem_def)
  have g2: "Item_getContent digestEnv cachedStore bankItem = Inr ''c1''"
    by (simp add: Item_getContent_def bankItem_def)
  have g3: "Item_getContent digestEnv unlockedStore (setContent bankItem ''c2'') = Inr ''c2''"
    by (simp add: Item_getContent_def setContent_def)
  from e1 triple [of ?X] have x: "?X = (Inr (), fst (snd ?X), snd (snd ?X))" by simp
  from e2 triple [of ?Y] have y: "?Y = (Inr (), fst (snd ?Y), snd (snd ?Y))" by simp
  from e3 triple [of ?Z] have z: "?Z = (Inr (), fst (snd ?Z), snd (snd ?Z))" by simp
  note t1 = saveItem_revision_id_content_addressed [where E = digestEnv and now = 5
      and st = unlockedStore and item = bankItem and source = Local
      and st' = "fst (snd ?X)" and item' = "snd (snd ?X)" and nowB = 5 and stB = cachedStore
      and itemB = bankItem and sourceB = Local and stB' = "fst (snd ?Y)"
      and itemB' = "snd (snd ?Y)"]
  note t2 = saveItem_revision_id_content_addressed [where E = digestEnv and now = 5
      and st = unlockedStore and item = bankItem and source = Local
      and st' = "fst (snd ?X)" and item' = "snd (snd ?X)" and nowB = 5 and stB = unlockedStore
      and itemB = "setContent bankItem ''c2''" and sourceB = Local and stB' = "fst (snd ?Z)"
      and itemB' = "snd (snd ?Z)"]
  from t1 x y i g1 g2 have a: "revision (snd (snd ?X)) = revision (snd (snd ?Y))" by metis
  from t2 x z c g1 g3 have b: "revision (snd (snd ?X)) \<noteq> revision (snd (snd ?Z))" by auto
  from c e1 e2 e3 a b show ?thesis by simp
qed

section \<open>Properties of the local store: saving keys\<close>

lemma delete_filter: "AList.delete k al = filter (\<lambda>p. fst p \<noteq> k) al"
  by (induction al) auto

lemma runAll_remove:
  "runAll (map (\<lambda>ident s. os_remove s ident) ids) s = (r, s1) \<Longrightarrow>
     failing s1 = failing s \<and>
     (r = Inr () \<longrightarrow> entries s1 = filter (\<lambda>p. fst p \<notin> set ids) (entries s))"
proof (induction ids arbitrary: s r s1)
  case Nil
  then show ?case by simp
next
  case (Cons i ids)
  obtain r0 s0 where a: "os_remove s i = (r0, s0)" by (cases "os_remove s i")
  obtain rs s2 where b: "runAll (map (\<lambda>ident s. os_remove s ident) ids) s0 = (rs, s2)"
    by (cases "runAll (map (\<lambda>ident s. os_remove s ident) ids) s0")
  from Cons.prems a b have c: "s1 = s2" "r = (case r0 of Inl e \<Rightarrow> Inl e | Inr u \<Rightarrow> rs)"
    by (simp_all add: Let_def)
  from a have d: "failing s0 = failing s"
    "r0 = Inr () \<longrightarrow> entries s0 = filter (\<lambda>p. fst p \<noteq> i) (entries s)"
    by (auto simp: os_remove_def delete_filter split: if_splits)
  from Cons.IH [OF b] c d show ?case
    by (auto split: sum.splits simp: conj_commute)
qed

lemma runAll_set:
  "runAll (map (\<lambda>kv s. os_set s (fst kv) (snd kv)) kvs) s = (r, s1) \<Longrightarrow>
     failing s1 = failing s \<and> (r = Inr () \<longrightarrow> entries s1 = putAll kvs (entries s))"
proof (induction kvs arbitrary: s r s1)
  case Nil
  then show ?case by (simp add: putAll_def)
next
  case (Cons kv kvs)
  obtain r0 s0 where a: "os_set s (fst kv) (snd kv) = (r0, s0)"
    by (cases "os_set s (fst kv) (snd kv)")
  obtain rs s2 where b: "runAll (map (\<lambda>kv s. os_set s (fst kv) (snd kv)) kvs) s0 = (rs, s2)"
    by (cases "runAll (map (\<lambda>kv s. os_set s (fst kv) (snd kv)) kvs) s0")
  from Cons.prems a b have c: "s1 = s2" "r = (case r0 of Inl e \<Rightarrow> Inl e | Inr u \<Rightarrow> rs)"
    by (simp_all add: Let_def)
  from a have d: "failing s0 = failing s"
    "r0 = Inr () \<longrightarrow> entries s0 = AList.update (fst kv) (snd kv) (entries s)"
    by (auto simp: os_set_def split: if_splits)
  from Cons.IH [OF b] c d show ?case
    by (auto split: sum.splits simp: putAll_def)
qed

lemma map_of_putAll:
  "map_of (putAll kvs al) k =
     (case map_of (rev kvs) k of Some v \<Rightarrow> Some v | None \<Rightarrow> map_of al k)"
proof (induction kvs arbitrary: al)
  case Nil
  then show ?case by (simp add: putAll_def)
next
  case (Cons kv kvs)
  have "putAll (kv # kvs) al = putAll kvs (AList.update (fst kv) (snd kv) al)"
    by (simp add: putAll_def)
  then show ?case
    by (cases kv) (auto simp: Cons.IH update_conv' map_add_def map_of_append
        split: option.splits)
qed

lemma update_fresh: "k \<notin> fst ` set al \<Longrightarrow> AList.update k v al = al @ [(k, v)]"
  by (induction al) auto

lemma putAll_fresh:
  "distinct (map fst kvs) \<Longrightarrow> fst ` set kvs \<inter> fst ` set al = {} \<Longrightarrow>
     putAll kvs al = al @ kvs"
proof (induction kvs arbitrary: al)
  case Nil
  then show ?case by (simp add: putAll_def)
next
  case (Cons kv kvs)
  have u: "AList.update (fst kv) (snd kv) al = al @ [kv]"
    using Cons.prems by (simp add: update_fresh)
  have "putAll (kv # kvs) al = putAll kvs (al @ [kv])"
    by (simp add: putAll_def u)
  also have "\<dots> = (al @ [kv]) @ kvs"
    using Cons.prems by (intro Cons.IH) auto
  finally show ?case by simp
qed

lemma prefix_hint: "\<not> prefix KEY_ID_PREFIX ''hint''"
  by (simp add: KEY_ID_PREFIX_def)

lemma saveKeys_unfold:
  "saveKeys st keys hint =
     (case runAll (map (\<lambda>ident s. os_remove s ident) (os_list (keyStore st) KEY_ID_PREFIX))
             (keyStore st) of
        (Inl e, ks1) \<Rightarrow> (Inl e, st\<lparr>keyStore := ks1\<rparr>)
      | (Inr u, ks1) \<Rightarrow>
          (case runAll (map (\<lambda>kv s. os_set s (fst kv) (snd kv))
                         (savedKeyEntries keys @ [(''hint'', Hint hint)])) ks1 of
             (saved, ks2) \<Rightarrow> (saved, st\<lparr>keyStore := ks2\<rparr>)))"
  by (simp add: saveKeys_def savedKeyEntries_def Let_def comp_def split: prod.splits sum.splits)

lemma saveKeys_entries:
  assumes s: "saveKeys st keys hint = (Inr (), st1)"
  shows "st1 = st\<lparr>keyStore := keyStore st1\<rparr>"
    and "failing (keyStore st1) = failing (keyStore st)"
    and "entries (keyStore st1) =
           putAll (savedKeyEntries keys @ [(''hint'', Hint hint)])
             (filter (\<lambda>p. \<not> prefix KEY_ID_PREFIX (fst p)) (entries (keyStore st)))"
proof -
  obtain r1 ks1 where a:
    "runAll (map (\<lambda>ident s. os_remove s ident) (os_list (keyStore st) KEY_ID_PREFIX))
       (keyStore st) = (r1, ks1)"
    by (cases "runAll (map (\<lambda>ident s. os_remove s ident) (os_list (keyStore st) KEY_ID_PREFIX))
       (keyStore st)")
  obtain r2 ks2 where b:
    "runAll (map (\<lambda>kv s. os_set s (fst kv) (snd kv))
       (savedKeyEntries keys @ [(''hint'', Hint hint)])) ks1 = (r2, ks2)"
    by (cases "runAll (map (\<lambda>kv s. os_set s (fst kv) (snd kv))
       (savedKeyEntries keys @ [(''hint'', Hint hint)])) ks1")
  from s a b have c: "r1 = Inr ()" "r2 = Inr ()" "st1 = st\<lparr>keyStore := ks2\<rparr>"
    by (auto simp: saveKeys_unfold split: sum.splits)
  from runAll_remove [OF a] c have d: "failing ks1 = failing (keyStore st)"
    "entries ks1 = filter (\<lambda>p. fst p \<notin> set (os_list (keyStore st) KEY_ID_PREFIX))
       (entries (keyStore st))" by simp_all
  have e: "filter (\<lambda>p. fst p \<notin> set (os_list (keyStore st) KEY_ID_PREFIX)) (entries (keyStore st))
      = filter (\<lambda>p. \<not> prefix KEY_ID_PREFIX (fst p)) (entries (keyStore st))"
    by (rule filter_cong) (auto simp: os_list_def)
  from runAll_set [OF b] c have f: "failing ks2 = failing ks1"
    "entries ks2 = putAll (savedKeyEntries keys @ [(''hint'', Hint hint)]) (entries ks1)"
    by simp_all
  from c show "st1 = st\<lparr>keyStore := keyStore st1\<rparr>" by simp
  from c d f show "failing (keyStore st1) = failing (keyStore st)" by simp
  from c d e f show "entries (keyStore st1) =
           putAll (savedKeyEntries keys @ [(''hint'', Hint hint)])
             (filter (\<lambda>p. \<not> prefix KEY_ID_PREFIX (fst p)) (entries (keyStore st)))"
    by simp
qed

lemma map_of_filter_out:
  "\<not> P k \<Longrightarrow> map_of (filter (\<lambda>p. P (fst p)) al) k = None"
  by (induction al) auto

lemma map_of_filter_keep:
  "P k \<Longrightarrow> map_of (filter (\<lambda>p. P (fst p)) al) k = map_of al k"
  by (induction al) auto

lemma keys_putAll: "fst ` set (putAll kvs al) = fst ` set kvs \<union> fst ` set al"
proof (induction kvs arbitrary: al)
  case Nil
  then show ?case by (simp add: putAll_def)
next
  case (Cons kv kvs)
  have "putAll (kv # kvs) al = putAll kvs (AList.update (fst kv) (snd kv) al)"
    by (simp add: putAll_def)
  then show ?case by (auto simp: Cons.IH dom_update)
qed

lemma putAll_append: "putAll (xs @ ys) al = putAll ys (putAll xs al)"
  by (simp add: putAll_def)

lemma savedKeyEntries_keys: "map fst (savedKeyEntries keys) = map (\<lambda>key. KEY_ID_PREFIX @ identifier key) keys"
  by (simp add: savedKeyEntries_def comp_def)

lemma savedKeyEntries_prefix: "k \<in> fst ` set (savedKeyEntries keys) \<Longrightarrow> prefix KEY_ID_PREFIX k"
  by (auto simp: savedKeyEntries_def)

lemma savedKeyEntries_distinct:
  "distinct (map identifier keys) \<Longrightarrow> distinct (map fst (savedKeyEntries keys))"
  by (simp add: savedKeyEntries_keys distinct_map inj_on_def comp_def)

text \<open>
  C10. \<open>Store.saveKeys(keys, hint)\<close> replaces the key set. After it succeeds, what the
  key store holds under a key with the prefix \<open>key/\<close> is exactly what the given keys
  put there (the entry \<open>key/<identifier>\<close> for each given key, the last one for an
  identifier given twice; nothing for any other such key, so every entry stored before is
  gone), \<open>passwordHint()\<close> returns the given hint, every other entry of the key store
  and every other part of the store is as before, and for keys with distinct identifiers
  \<open>listKeys()\<close> returns the given keys.
\<close>

theorem saveKeys_replaces_key_set:
  "saveKeys st keys hint = (Inr (), st') \<longrightarrow>
     (\<forall>k. prefix KEY_ID_PREFIX k \<longrightarrow>
        os_get (keyStore st') k = map_of (rev (savedKeyEntries keys)) k) \<and>
     passwordHint st' = Some (Hint hint) \<and>
     (\<forall>k. \<not> prefix KEY_ID_PREFIX k \<and> k \<noteq> ''hint'' \<longrightarrow>
        os_get (keyStore st') k = os_get (keyStore st) k) \<and>
     st' = st\<lparr>keyStore := keyStore st'\<rparr> \<and>
     failing (keyStore st') = failing (keyStore st) \<and>
     set (os_list (keyStore st') KEY_ID_PREFIX) =
       (\<lambda>key. KEY_ID_PREFIX @ identifier key) ` set keys \<and>
     (distinct (map identifier keys) \<longrightarrow>
        Store_listKeys st' = map (\<lambda>key. Some (StoredKey key)) keys)"
proof (intro impI)
  assume s: "saveKeys st keys hint = (Inr (), st')"
  let ?F = "filter (\<lambda>p. \<not> prefix KEY_ID_PREFIX (fst p)) (entries (keyStore st))"
  let ?KE = "savedKeyEntries keys"
  note e = saveKeys_entries [OF s]
  have en: "entries (keyStore st') = putAll (?KE @ [(''hint'', Hint hint)]) ?F" by (rule e(3))
  have get: "os_get (keyStore st') k =
      (if k = ''hint'' then Some (Hint hint)
       else case map_of (rev ?KE) k of Some v \<Rightarrow> Some v | None \<Rightarrow> map_of ?F k)" for k
    by (simp add: os_get_def en map_of_putAll)
  have a: "os_get (keyStore st') k = map_of (rev ?KE) k" if "prefix KEY_ID_PREFIX k" for k
  proof -
    from that prefix_hint have "k \<noteq> ''hint''" by auto
    moreover from that have "map_of ?F k = None"
      using map_of_filter_out [of "\<lambda>k. \<not> prefix KEY_ID_PREFIX k" k] by simp
    ultimately show ?thesis by (simp add: get split: option.splits)
  qed
  have b: "passwordHint st' = Some (Hint hint)" by (simp add: passwordHint_def get)
  have c: "os_get (keyStore st') k = os_get (keyStore st) k"
    if "\<not> prefix KEY_ID_PREFIX k \<and> k \<noteq> ''hint''" for k
  proof -
    from that have "k \<notin> fst ` set (rev ?KE)" using savedKeyEntries_prefix [of k keys] by auto
    then have "map_of (rev ?KE) k = None" by (simp add: map_of_eq_None_iff)
    moreover from that have "map_of ?F k = map_of (entries (keyStore st)) k"
      using map_of_filter_keep [of "\<lambda>k. \<not> prefix KEY_ID_PREFIX k" k] by simp
    ultimately have "os_get (keyStore st') k = map_of (entries (keyStore st)) k"
      using that by (simp add: get)
    then show ?thesis by (simp add: os_get_def)
  qed
  have f: "set (os_list (keyStore st') KEY_ID_PREFIX) =
      (\<lambda>key. KEY_ID_PREFIX @ identifier key) ` set keys"
  proof -
    have "fst ` set (entries (keyStore st')) = fst ` set ?KE \<union> {''hint''} \<union> fst ` set ?F"
      by (simp add: en keys_putAll Un_commute insert_commute)
    moreover have "fst ` set ?KE = (\<lambda>key. KEY_ID_PREFIX @ identifier key) ` set keys"
      by (simp add: savedKeyEntries_def image_comp comp_def)
    ultimately show ?thesis
      using prefix_hint by (auto simp: os_list_def)
  qed
  have g: "Store_listKeys st' = map (\<lambda>key. Some (StoredKey key)) keys"
    if d: "distinct (map identifier keys)"
  proof -
    from d have dk: "distinct (map fst ?KE)" by (rule savedKeyEntries_distinct)
    have dj: "fst ` set ?KE \<inter> fst ` set ?F = {}"
      using savedKeyEntries_prefix [of _ keys] by (force simp: image_iff)
    have "putAll (?KE @ [(''hint'', Hint hint)]) ?F =
        AList.update ''hint'' (Hint hint) (?F @ ?KE)"
      by (simp add: putAll_append putAll_fresh [OF dk dj]) (simp add: putAll_def)
    then have "map fst (entries (keyStore st')) =
        (if ''hint'' \<in> set (map fst (?F @ ?KE)) then map fst (?F @ ?KE)
         else map fst (?F @ ?KE) @ [''hint''])"
      by (simp only: en update_keys)
    then have "os_list (keyStore st') KEY_ID_PREFIX =
        filter (prefix KEY_ID_PREFIX) (map fst (?F @ ?KE))"
      using prefix_hint by (simp add: os_list_def)
    also have "\<dots> = map fst ?KE"
    proof -
      have "filter (prefix KEY_ID_PREFIX) (map fst ?F) = []"
        by (auto simp: filter_empty_conv)
      moreover have "filter (prefix KEY_ID_PREFIX) (map fst ?KE) = map fst ?KE"
        using savedKeyEntries_prefix [of _ keys] by (force simp: filter_id_conv image_iff)
      ultimately show ?thesis by simp
    qed
    finally have l: "os_list (keyStore st') KEY_ID_PREFIX =
        map (\<lambda>key. KEY_ID_PREFIX @ identifier key) keys"
      by (simp add: savedKeyEntries_keys)
    have "os_get (keyStore st') (KEY_ID_PREFIX @ identifier key) = Some (StoredKey key)"
      if "key \<in> set keys" for key
    proof -
      have "(KEY_ID_PREFIX @ identifier key, StoredKey key) \<in> set (rev ?KE)"
        using that by (auto simp: savedKeyEntries_def)
      moreover have "distinct (map fst (rev ?KE))"
        using dk by (simp only: rev_map [symmetric] distinct_rev)
      ultimately have "map_of (rev ?KE) (KEY_ID_PREFIX @ identifier key) = Some (StoredKey key)"
        by (rule map_of_is_SomeI [rotated])
      then show ?thesis by (simp add: a)
    qed
    then show ?thesis by (simp add: Store_listKeys_def l)
  qed
  from a b c e(1) e(2) f g show
    "(\<forall>k. prefix KEY_ID_PREFIX k \<longrightarrow>
        os_get (keyStore st') k = map_of (rev (savedKeyEntries keys)) k) \<and>
     passwordHint st' = Some (Hint hint) \<and>
     (\<forall>k. \<not> prefix KEY_ID_PREFIX k \<and> k \<noteq> ''hint'' \<longrightarrow>
        os_get (keyStore st') k = os_get (keyStore st) k) \<and>
     st' = st\<lparr>keyStore := keyStore st'\<rparr> \<and>
     failing (keyStore st') = failing (keyStore st) \<and>
     set (os_list (keyStore st') KEY_ID_PREFIX) =
       (\<lambda>key. KEY_ID_PREFIX @ identifier key) ` set keys \<and>
     (distinct (map identifier keys) \<longrightarrow>
        Store_listKeys st' = map (\<lambda>key. Some (StoredKey key)) keys)"
    by blast
qed

theorem saveKeys_replaces_key_set_witness:
  "fst (saveKeys oldKeysStore [goodEntry] ''h'') = Inr () \<and>
   distinct (map identifier [goodEntry]) \<and>
   Store_listKeys (snd (saveKeys oldKeysStore [goodEntry] ''h'')) = [Some (StoredKey goodEntry)] \<and>
   passwordHint (snd (saveKeys oldKeysStore [goodEntry] ''h'')) = Some (Hint ''h'') \<and>
   os_get (keyStore (snd (saveKeys oldKeysStore [goodEntry] ''h''))) ''key/OLD'' = None \<and>
   os_get (keyStore (snd (saveKeys oldKeysStore [goodEntry] ''h''))) ''other'' =
     Some (Hint ''x'') \<and>
   itemStore (snd (saveKeys oldKeysStore [goodEntry] ''h'')) = itemStore oldKeysStore"
proof -
  note key_defs = saveKeys_def os_list_def os_remove_def os_set_def os_get_def
    oldKeysStore_def KEY_ID_PREFIX_def Let_def
  let ?S = "saveKeys oldKeysStore [goodEntry] ''h''"
  have e1: "fst ?S = Inr ()" by (simp add: key_defs goodEntry_def)
  then have s: "?S = (Inr (), snd ?S)" by (metis prod.collapse)
  have d: "distinct (map identifier [goodEntry])" by simp
  have p1: "prefix KEY_ID_PREFIX ''key/OLD''" by (simp add: KEY_ID_PREFIX_def)
  have p2: "\<not> prefix KEY_ID_PREFIX ''other'' \<and> ''other'' \<noteq> ''hint''"
    by (simp add: KEY_ID_PREFIX_def)
  have m: "map_of (rev (savedKeyEntries [goodEntry])) ''key/OLD'' = None"
    by (simp add: savedKeyEntries_def KEY_ID_PREFIX_def goodEntry_def)
  have o: "os_get (keyStore oldKeysStore) ''other'' = Some (Hint ''x'')"
    by (simp add: os_get_def oldKeysStore_def)
  note t = saveKeys_replaces_key_set [where st = oldKeysStore and keys = "[goodEntry]"
      and hint = "''h''" and st' = "snd ?S"]
  from t s d have a: "Store_listKeys (snd ?S) = [Some (StoredKey goodEntry)]" by simp
  from t s have b: "passwordHint (snd ?S) = Some (Hint ''h'')" by simp
  from t s p1 m have c: "os_get (keyStore (snd ?S)) ''key/OLD'' = None" by metis
  from t s p2 o have f: "os_get (keyStore (snd ?S)) ''other'' = Some (Hint ''x'')" by metis
  from t s have "snd ?S = oldKeysStore\<lparr>keyStore := keyStore (snd ?S)\<rparr>" by blast
  then have g: "itemStore (snd ?S) = itemStore oldKeysStore"
    by (metis (no_types) Store.select_convs(2) Store.surjective Store.update_convs(1))
  from e1 d a b c f g show ?thesis by simp
qed

end
